theory Spec2Isabelle
  imports Main "HOL-Library.Multiset"
begin

section \<open>Data model (main.go, lines 35-50)\<close>

text \<open>
  A Go \<^verbatim>\<open>string\<close> is a sequence of bytes: \<^typ>\<open>string\<close>. The struct \<^verbatim>\<open>Command\<close> and the
  struct \<^verbatim>\<open>CommandResult\<close> are records with the fields of the source. Both have a field
  called \<^verbatim>\<open>Command\<close>; they are told apart by their qualified names
  \<open>Command.Command\<close> (the executable) and \<open>CommandResult.Command\<close> (the back-reference).
\<close>

record Command =
  WorkingDir :: string
  Command :: string
  Args :: "string list"

text \<open>
  How an external process ended, as \<^verbatim>\<open>os.ProcessState\<close> reports it: it exited with a
  status, or a signal terminated it.
\<close>

datatype ProcessState = Exited nat | Signaled string

text \<open>
  The values of Go's interface \<^verbatim>\<open>error\<close> that reach this program: an error of the
  operating system or of the I/O plumbing (with its message), the \<^verbatim>\<open>*exec.ExitError\<close> that
  \<^verbatim>\<open>Wait\<close> returns for a process that did not end successfully, and the errors the program
  makes itself with \<^verbatim>\<open>fmt.Errorf\<close>. A nil error is \<^term>\<open>None\<close>.
\<close>

datatype error = OSError string | ExitError ProcessState | Errorf string

record CommandResult =
  Success :: bool
  Error :: "error option"
  Command :: Command

text \<open>\<^verbatim>\<open>strconv.Itoa\<close> on a count, for the \<^verbatim>\<open>%d\<close> verbs and the exit status message.\<close>

fun itoa :: "nat \<Rightarrow> string" where
  "itoa n = (if n < 10 then [''0123456789'' ! n]
             else itoa (n div 10) @ [''0123456789'' ! (n mod 10)])"

declare itoa.simps [simp del]

text \<open>\<^verbatim>\<open>strings.Join(elems, sep)\<close>.\<close>

fun Join :: "string list \<Rightarrow> string \<Rightarrow> string" where
  "Join [] sep = []"
| "Join [x] sep = x"
| "Join (x # y # ys) sep = x @ sep @ Join (y # ys) sep"

text \<open>
  \<^verbatim>\<open>func (c *Command) String()\<close>, line 48:
  \<^verbatim>\<open>fmt.Sprintf("'%s %s' in '%s'", c.Command, strings.Join(c.Args, " "), c.WorkingDir)\<close>.
  The byte 0x27 is the single quote.
\<close>

definition String :: "Command \<Rightarrow> string" where
  "String c = [CHR 0x27] @ Command.Command c @ '' '' @ Join (Args c) '' '' @ [CHR 0x27]
                @ '' in '' @ [CHR 0x27] @ WorkingDir c @ [CHR 0x27]"

text \<open>The method \<^verbatim>\<open>Error()\<close> of an error value: its message.\<close>

fun ProcessState_String :: "ProcessState \<Rightarrow> string" where
  "ProcessState_String (Exited n) = ''exit status '' @ itoa n"
| "ProcessState_String (Signaled s) = ''signal: '' @ s"

fun Error_msg :: "error \<Rightarrow> string" where
  "Error_msg (OSError m) = m"
| "Error_msg (ExitError st) = ProcessState_String st"
| "Error_msg (Errorf m) = m"

section \<open>The process runner: runCommand (main.go, lines 144-176)\<close>

text \<open>
  \<^verbatim>\<open>runCommand\<close> talks to the operating system at three places: \<^verbatim>\<open>process.Start()\<close>,
  \<^verbatim>\<open>process.Wait()\<close> and the read of the variable \<^verbatim>\<open>timedOut\<close> that the timer goroutine
  writes. What it observes there is the record \<open>proc_env\<close>:
  \<^item> \<open>start_err\<close>: the error of \<^verbatim>\<open>Start\<close> (its message), or \<^term>\<open>None\<close>;
  \<^item> \<open>exit_state\<close>: how the process ended, once \<^verbatim>\<open>Wait\<close> returns;
  \<^item> \<open>io_err\<close>: an error of \<^verbatim>\<open>Wait\<close> from copying the output, or \<^term>\<open>None\<close>;
  \<^item> \<open>timedOut\<close>: the value of the flag when line 167 reads it.
\<close>

record proc_env =
  start_err :: "string option"
  exit_state :: ProcessState
  io_err :: "string option"
  timedOut :: bool

text \<open>
  \<^verbatim>\<open>exec.Cmd.Wait\<close>: the error is an \<^verbatim>\<open>*exec.ExitError\<close> when the process did not exit
  with status 0, otherwise the error of the copying goroutines, otherwise nil.
\<close>

definition Wait :: "ProcessState \<Rightarrow> string option \<Rightarrow> error option" where
  "Wait st io = (if st \<noteq> Exited 0 then Some (ExitError st) else map_option OSError io)"

text \<open>
  Lines 166-175: what \<^verbatim>\<open>runCommand\<close> returns once \<^verbatim>\<open>Wait\<close> has returned \<open>err\<close> and the
  flag has been read as \<open>flag\<close>. The type assertion \<^verbatim>\<open>err.(*exec.ExitError)\<close> is the case
  distinction on the error.
\<close>

definition after_wait :: "Command \<Rightarrow> error option \<Rightarrow> bool \<Rightarrow> CommandResult" where
  "after_wait command werr flag =
     (case werr of
        Some err \<Rightarrow>
          \<lparr>Success = False,
           Error = Some (if flag then Errorf (''process timed out: '' @ String command)
                         else (case err of
                                 ExitError st \<Rightarrow> Errorf ''exited with non-zero exit code''
                               | _ \<Rightarrow> err)),
           Command = command\<rparr>
      | None \<Rightarrow> \<lparr>Success = True, Error = None, Command = command\<rparr>)"

definition runCommand :: "Command \<Rightarrow> proc_env \<Rightarrow> CommandResult" where
  "runCommand command env =
     (case start_err env of
        Some e \<Rightarrow> \<lparr>Success = False, Error = Some (OSError e), Command = command\<rparr>
      | None \<Rightarrow> after_wait command (Wait (exit_state env) (io_err env)) (timedOut env))"

section \<open>The timer goroutine of runCommand (main.go, lines 156-166)\<close>

text \<open>
  After a successful \<^verbatim>\<open>Start\<close>, two goroutines and the external process run side by side:
  the timer goroutine (lines 158-164) waits for \<^verbatim>\<open>timer.C\<close>, sends the kill signal
  (line 160) and then sets \<^verbatim>\<open>timedOut\<close> (line 161); the calling goroutine blocks in
  \<^verbatim>\<open>process.Wait()\<close> (line 166) and then reads \<^verbatim>\<open>timedOut\<close> (line 167). The model is an
  interleaving of their atomic steps. Time is abstracted: the timer may fire at any moment,
  and the field \<open>overran\<close> records whether the process was still running when it did,
  that is, whether the process ran longer than the timeout.
\<close>

datatype proc_status = PRunning | PEnded ProcessState

datatype timer_pc = TWait | TSignal | TSetFlag | TDone

datatype waiter_pc = WWait | WCheck "error option" | WReturned CommandResult

record race =
  proc :: proc_status
  timer :: timer_pc
  timedOut_var :: bool
  waiter :: waiter_pc
  overran :: bool

definition race_init :: race where
  "race_init = \<lparr>proc = PRunning, timer = TWait, timedOut_var = False, waiter = WWait,
                 overran = False\<rparr>"

text \<open>
  \<^verbatim>\<open>process.Process.Signal(os.Kill)\<close> ends a process that is still running; on a process
  that has ended it has no effect (its error is dropped by line 160).
\<close>

inductive race_step :: "Command \<Rightarrow> race \<Rightarrow> race \<Rightarrow> bool" for command :: Command where
  proc_exits: "proc r = PRunning \<Longrightarrow> race_step command r (r\<lparr>proc := PEnded (Exited code)\<rparr>)"
| timer_fires: "timer r = TWait \<Longrightarrow>
     race_step command r (r\<lparr>timer := TSignal, overran := (proc r = PRunning)\<rparr>)"
| signal: "timer r = TSignal \<Longrightarrow>
     race_step command r
       (r\<lparr>timer := TSetFlag,
          proc := (if proc r = PRunning then PEnded (Signaled ''killed'') else proc r)\<rparr>)"
| set_flag: "timer r = TSetFlag \<Longrightarrow>
     race_step command r (r\<lparr>timer := TDone, timedOut_var := True\<rparr>)"
| wait_returns: "\<lbrakk>waiter r = WWait; proc r = PEnded st\<rbrakk> \<Longrightarrow>
     race_step command r (r\<lparr>waiter := WCheck (Wait st io)\<rparr>)"
| check: "waiter r = WCheck err \<Longrightarrow>
     race_step command r (r\<lparr>waiter := WReturned (after_wait command err (timedOut_var r))\<rparr>)"

definition race_reachable :: "Command \<Rightarrow> race \<Rightarrow> bool" where
  "race_reachable command r = (race_step command)\<^sup>*\<^sup>* race_init r"

text \<open>
  What holds in every state of that interleaving: \<^verbatim>\<open>Wait\<close> returns only for a process that
  has ended, the result is made from what \<^verbatim>\<open>Wait\<close> returned, the flag is read as true only
  after line 161, and the process does not outlive line 160.
\<close>

definition race_inv :: "Command \<Rightarrow> race \<Rightarrow> bool" where
  "race_inv c r \<longleftrightarrow>
     (\<forall>err. waiter r = WCheck err \<longrightarrow> (\<exists>st io. proc r = PEnded st \<and> err = Wait st io))
   \<and> (\<forall>res. waiter r = WReturned res \<longrightarrow>
         (\<exists>st io flag. proc r = PEnded st \<and> res = after_wait c (Wait st io) flag
            \<and> (flag \<longrightarrow> timedOut_var r)))
   \<and> (timedOut_var r \<longrightarrow> timer r = TDone)
   \<and> (timer r = TSetFlag \<or> timer r = TDone \<longrightarrow> proc r \<noteq> PRunning)"

text \<open>The steps left to the three parties; every step lowers the sum.\<close>

definition race_weight :: "race \<Rightarrow> nat" where
  "race_weight r =
     (if proc r = PRunning then 1 else 0)
   + (case timer r of TWait \<Rightarrow> 3 | TSignal \<Rightarrow> 2 | TSetFlag \<Rightarrow> 1 | TDone \<Rightarrow> 0)
   + (case waiter r of WWait \<Rightarrow> 2 | WCheck err \<Rightarrow> 1 | WReturned res \<Rightarrow> 0)"

section \<open>Repository discovery (main.go, lines 65-87)\<close>

text \<open>
  An entry of \<^verbatim>\<open>ioutil.ReadDir\<close> is an \<^verbatim>\<open>os.FileInfo\<close>; the loop reads its \<^verbatim>\<open>Name()\<close> and
  \<^verbatim>\<open>IsDir()\<close>.
\<close>

record FileInfo =
  Name :: string
  IsDir :: bool

text \<open>
  What line 74 learns from \<^verbatim>\<open>os.Stat\<close>: the call succeeded (the entry exists), it failed
  with an error that \<^verbatim>\<open>os.IsNotExist\<close> accepts, or it failed with another error (permission
  denied on the directory, an I/O error).
\<close>

datatype stat_result = StatOk | StatNotExist | StatFailed

text \<open>\<^verbatim>\<open>strings.HasSuffix\<close>.\<close>

definition HasSuffix :: "string \<Rightarrow> string \<Rightarrow> bool" where
  "HasSuffix s suffix =
     (length suffix \<le> length s \<and> drop (length s - length suffix) s = suffix)"

text \<open>
  \<^verbatim>\<open>strings.Split(s, sep)\<close> for a separator of one byte: cut at every occurrence of the
  separator, as the library's loop over \<^verbatim>\<open>Index\<close> does.
\<close>

function Split :: "string \<Rightarrow> char \<Rightarrow> string list" where
  "Split s sep =
     (if sep \<in> set s
      then takeWhile (\<lambda>c. c \<noteq> sep) s # Split (tl (dropWhile (\<lambda>c. c \<noteq> sep) s)) sep
      else [s])"
  by pat_completeness auto
termination
proof (relation "measure (\<lambda>(s, sep). length s)")
  show "wf (measure (\<lambda>(s, sep). length s))" by simp
next
  fix s :: string and sep :: char
  assume "sep \<in> set s"
  then have "dropWhile (\<lambda>c. c \<noteq> sep) s \<noteq> []" by simp
  then have "length (tl (dropWhile (\<lambda>c. c \<noteq> sep) s)) < length (dropWhile (\<lambda>c. c \<noteq> sep) s)"
    by (cases "dropWhile (\<lambda>c. c \<noteq> sep) s") simp_all
  moreover have "length (dropWhile (\<lambda>c. c \<noteq> sep) s) \<le> length s"
    by (rule length_dropWhile_le)
  ultimately show "((tl (dropWhile (\<lambda>c. c \<noteq> sep) s), sep), (s, sep)) \<in> measure (\<lambda>(s, sep). length s)"
    by simp
qed

declare Split.simps [simp del]

text \<open>
  \<^verbatim>\<open>strings.EqualFold(s, t)\<close>. While both strings hold ASCII bytes (below 0x80,
  \<^verbatim>\<open>utf8.RuneSelf\<close>) the library compares byte by byte: equal bytes, or an upper-case letter
  (65 to 90) and the same letter in lower case (32 above). At the first byte outside ASCII
  it decodes runes and consults the Unicode folding tables on what is left of both strings;
  the tables are not part of this repository, so that comparison is the parameter \<open>uni\<close>.
\<close>

fun EqualFold :: "(string \<Rightarrow> string \<Rightarrow> bool) \<Rightarrow> string \<Rightarrow> string \<Rightarrow> bool" where
  "EqualFold uni (sr # s) (tr # t) =
     (if 128 \<le> (of_char sr :: nat) \<or> 128 \<le> (of_char tr :: nat) then uni (sr # s) (tr # t)
      else if tr = sr then EqualFold uni s t
      else (let lo = min (of_char sr) (of_char tr) :: nat;
                hi = max (of_char sr) (of_char tr) :: nat
            in if 65 \<le> lo \<and> lo \<le> 90 \<and> hi = lo + 32 then EqualFold uni s t else False))"
| "EqualFold uni s t = (length s = length t)"

text \<open>Case-insensitive comparison of ASCII strings, stated independently of the loop above.\<close>

definition toLower :: "char \<Rightarrow> char" where
  "toLower c = (if 65 \<le> (of_char c :: nat) \<and> (of_char c :: nat) \<le> 90
                then char_of ((of_char c :: nat) + 32) else c)"

definition ascii :: "string \<Rightarrow> bool" where
  "ascii s = list_all (\<lambda>c. (of_char c :: nat) < 128) s"

text \<open>
  The loop of lines 69-87, with \<open>repos\<close> as the accumulator. \<open>stat\<close> is the file system:
  it answers \<^verbatim>\<open>os.Stat\<close> on a path. \<^verbatim>\<open>filepath.Join(dir.Name(), ".git")\<close> is the name, a
  slash and \<^verbatim>\<open>.git\<close> (a directory entry's name is one clean path element).
\<close>

fun discover ::
  "(string \<Rightarrow> string \<Rightarrow> bool) \<Rightarrow> (string \<Rightarrow> stat_result) \<Rightarrow> string list \<Rightarrow> string list
     \<Rightarrow> FileInfo list \<Rightarrow> string list" where
  "discover uni stat excludedDirs repos [] = repos"
| "discover uni stat excludedDirs repos (dir # dirs) =
     (if \<not> IsDir dir \<or> HasSuffix (Name dir) ''.git''
        then discover uni stat excludedDirs repos dirs
      else if stat (Name dir @ ''/.git'') = StatNotExist
        then discover uni stat excludedDirs repos dirs
      else if list_ex (\<lambda>excludedDir. EqualFold uni (Name dir) excludedDir) excludedDirs
        then discover uni stat excludedDirs repos dirs
      else discover uni stat excludedDirs (repos @ [Name dir]) dirs)"

text \<open>The condition under which the loop appends an entry to \<open>repos\<close>.\<close>

definition kept ::
  "(string \<Rightarrow> string \<Rightarrow> bool) \<Rightarrow> (string \<Rightarrow> stat_result) \<Rightarrow> string list \<Rightarrow> FileInfo \<Rightarrow> bool" where
  "kept uni stat excludedDirs dir \<longleftrightarrow>
     IsDir dir \<and> \<not> HasSuffix (Name dir) ''.git''
   \<and> stat (Name dir @ ''/.git'') \<noteq> StatNotExist
   \<and> \<not> list_ex (\<lambda>excludedDir. EqualFold uni (Name dir) excludedDir) excludedDirs"

text \<open>
  The file system behind \<^verbatim>\<open>os.Stat\<close>: \<open>present p\<close> says that the path \<open>p\<close> exists. A
  successful call reports an existing path, and a not-exist error a missing one; a call that
  fails for another reason says nothing about the path.
\<close>

definition stat_agrees :: "(string \<Rightarrow> stat_result) \<Rightarrow> (string \<Rightarrow> bool) \<Rightarrow> bool" where
  "stat_agrees stat present \<longleftrightarrow>
     (\<forall>p. (stat p = StatOk \<longrightarrow> present p) \<and> (stat p = StatNotExist \<longrightarrow> \<not> present p))"

text \<open>
  Lines 65-87 of \<^verbatim>\<open>main\<close>: \<open>readdir\<close> is what \<^verbatim>\<open>ioutil.ReadDir("./")\<close> returned, the entries or
  an error; line 66 drops the error, and \<^verbatim>\<open>ReadDir\<close> returns no entries with an error.
  \<open>excludeDirectories\<close> is the value of the flag \<^verbatim>\<open>-exclude\<close>.
\<close>

definition main_repos ::
  "(string \<Rightarrow> string \<Rightarrow> bool) \<Rightarrow> (string \<Rightarrow> stat_result) \<Rightarrow> string \<Rightarrow> string + FileInfo list
     \<Rightarrow> string list" where
  "main_repos uni stat excludeDirectories readdir =
     (let dirs = (case readdir of Inl err \<Rightarrow> [] | Inr entries \<Rightarrow> entries);
          excludedDirs = Split excludeDirectories (CHR '','')
      in discover uni stat excludedDirs [] dirs)"

text \<open>Lines 91-97: the command published for each repository.\<close>

definition main_commands :: "string list \<Rightarrow> string list \<Rightarrow> Command list" where
  "main_commands repos additionalArgs =
     map (\<lambda>repo. \<lparr>WorkingDir = repo, Command = ''git'', Args = additionalArgs\<rparr>) repos"

section \<open>One iteration of a worker (main.go, lines 124-141)\<close>

text \<open>
  \<^verbatim>\<open>filepath.Base\<close> with the slash as separator: the empty path gives a dot, trailing
  slashes are dropped, the result is what follows the last slash, and a path of slashes
  only gives one slash.
\<close>

definition Base :: "string \<Rightarrow> string" where
  "Base path =
     (if path = [] then ''.''
      else (let stripped = rev (dropWhile (\<lambda>c. c = CHR ''/'') (rev path));
                element = rev (takeWhile (\<lambda>c. c \<noteq> CHR ''/'') (rev stripped))
            in if element = [] then ''/'' else element))"

text \<open>
  A \<^verbatim>\<open>log.Logger\<close> made by \<^verbatim>\<open>log.New(w, prefix, 0)\<close>: each call of \<^verbatim>\<open>Printf\<close> writes one
  line to \<open>w\<close>: the prefix, the message, and a newline (byte 0x0A) unless the message ends
  with one.
\<close>

definition Logger_Printf :: "string \<Rightarrow> string \<Rightarrow> string" where
  "Logger_Printf prefix s =
     prefix @ s @ (if s = [] \<or> last s \<noteq> CHR 0x0A then [CHR 0x0A] else [])"

text \<open>The lines of a buffer: cut at every newline, without the empty piece after a final newline.\<close>

definition Lines :: "string \<Rightarrow> string list" where
  "Lines buf = (let pieces = Split buf (CHR 0x0A)
                in if last pieces = [] then butlast pieces else pieces)"

text \<open>
  Modelled from the spec: package \<^verbatim>\<open>logwriter\<close> (\<^verbatim>\<open>NewLogWriter\<close>, \<^verbatim>\<open>Write\<close>, \<^verbatim>\<open>Flush\<close>) is imported
  by main.go and is not among the sources. The spec (sections 4.4 and 6) says that the
  writer accumulates the bytes of one stream of a task and, when flushed, writes them to the
  shared stream with each line labelled by the task's prefix. \<open>LogWriter_Flush prefix buf\<close>
  is what a flush writes through the logger for the accumulated bytes \<open>buf\<close>, line by line.
\<close>

definition LogWriter_Flush :: "string \<Rightarrow> string \<Rightarrow> string list" where
  "LogWriter_Flush prefix buf = map (Logger_Printf prefix) (Lines buf)"

text \<open>
  What one iteration of the loop of \<^verbatim>\<open>worker\<close> writes to \<^verbatim>\<open>os.Stdout\<close> and \<^verbatim>\<open>os.Stderr\<close>, as
  the lists of lines written, and the result it sends. \<open>pout\<close> and \<open>perr\<close> are the bytes the
  external process wrote to its standard output and standard error. Line 137 calls
  \<^verbatim>\<open>result.Error.Error()\<close>, which panics on a nil error: that is the value \<^term>\<open>None\<close>.
\<close>

record task_output =
  to_stdout :: "string list"
  to_stderr :: "string list"

text \<open>Lines 125 and 126: \<^verbatim>\<open>fmt.Sprintf("[%s] ", filepath.Base(cmd.WorkingDir))\<close>.\<close>

definition task_prefix :: "Command \<Rightarrow> string" where
  "task_prefix cmd = ''['' @ Base (WorkingDir cmd) @ ''] ''"

definition worker_task ::
  "Command \<Rightarrow> proc_env \<Rightarrow> string \<Rightarrow> string \<Rightarrow> (task_output \<times> CommandResult) option" where
  "worker_task cmd env pout perr =
     (let prefix = task_prefix cmd;
          header = Logger_Printf prefix (''--> '' @ String cmd @ [CHR 0x0A]);
          result = runCommand cmd env;
          flushed_out = LogWriter_Flush prefix pout;
          flushed_err = LogWriter_Flush prefix perr
      in if \<not> Success result
         then (case Error result of
                 None \<Rightarrow> None
               | Some e \<Rightarrow>
                   Some (\<lparr>to_stdout = header # flushed_out,
                          to_stderr = flushed_err
                            @ [Logger_Printf prefix (''error: '' @ Error_msg e @ [CHR 0x0A])]\<rparr>,
                         result))
         else Some (\<lparr>to_stdout = header # flushed_out, to_stderr = flushed_err\<rparr>, result))"

section \<open>The batch: dispatcher, worker pool and collector (main.go, lines 57-142)\<close>

text \<open>
  The goroutines of \<^verbatim>\<open>main\<close> communicate over the unbuffered channels \<^verbatim>\<open>input\<close> and
  \<^verbatim>\<open>output\<close>, so a send and its receive are one step. A worker is blocked in
  \<^verbatim>\<open>range input\<close> (\<open>Idle\<close>), is between the receive and the return of \<^verbatim>\<open>runCommand\<close>
  (\<open>Running\<close>, the only state in which its external process exists), is blocked in
  \<^verbatim>\<open>output <- result\<close> (\<open>Sending\<close>), or has left the loop because \<^verbatim>\<open>input\<close> is closed
  (\<open>Stopped\<close>).
\<close>

datatype worker_state = Idle | Running Command | Sending CommandResult | Stopped

text \<open>
  The state of the process: \<open>queue\<close> holds the commands the publishing goroutine (lines
  90-101) has still to send, \<open>closed\<close> says whether it has closed \<^verbatim>\<open>input\<close>, \<open>loop_i\<close>
  and \<open>failedCms\<close> are the variables \<^verbatim>\<open>i\<close> and \<^verbatim>\<open>failedCms\<close> of the collecting loop (lines
  104-110), \<open>exited\<close> is the argument of \<^verbatim>\<open>os.Exit\<close> once it has been called, and \<open>printed\<close>
  the lines lines 112-116 printed before. \<open>received\<close> is a history variable: every result
  read from \<^verbatim>\<open>output\<close>, in order.
\<close>

record system =
  queue :: "Command list"
  closed :: bool
  workers :: "worker_state list"
  loop_i :: nat
  received :: "CommandResult list"
  failedCms :: "CommandResult list"
  printed :: "string list"
  exited :: "int option"

text \<open>Lines 112-120: the summary and the exit status.\<close>

definition report :: "CommandResult list \<Rightarrow> string list" where
  "report failed =
     (if length failed > 0
      then (''error: '' @ itoa (length failed) @ '' command(s) failed'' @ [CHR 0x0A])
           # map (\<lambda>result. ''command failed: '' @ String (CommandResult.Command result)
                              @ [CHR 0x0A]) failed
      else [])"

definition exit_status :: "CommandResult list \<Rightarrow> int" where
  "exit_status failed = (if length failed > 0 then int (length failed) else 0)"

text \<open>
  \<^verbatim>\<open>os.Exit(code)\<close> hands \<open>code\<close> to the host. A POSIX host keeps its low eight bits:
  the exit status that the parent of the process reads is \<open>code\<close> modulo 256.
\<close>

definition host_exit_status :: "int \<Rightarrow> int" where
  "host_exit_status code = code mod 256"

text \<open>
  The steps of the process; \<open>total\<close> is \<^verbatim>\<open>len(repos)\<close>. \<^verbatim>\<open>os.Exit\<close> ends every goroutine, so
  no step follows it. The step \<open>run\<close> is a whole call of \<^verbatim>\<open>runCommand\<close>, for whatever the
  operating system answers (\<open>env\<close>).
\<close>

inductive step :: "nat \<Rightarrow> system \<Rightarrow> system \<Rightarrow> bool" for total :: nat where
  publish: "\<lbrakk>exited s = None; queue s = cmd # rest; k < length (workers s); workers s ! k = Idle\<rbrakk>
     \<Longrightarrow> step total s (s\<lparr>queue := rest, workers := (workers s)[k := Running cmd]\<rparr>)"
| close: "\<lbrakk>exited s = None; queue s = []; \<not> closed s\<rbrakk>
     \<Longrightarrow> step total s (s\<lparr>closed := True\<rparr>)"
| stop: "\<lbrakk>exited s = None; closed s; k < length (workers s); workers s ! k = Idle\<rbrakk>
     \<Longrightarrow> step total s (s\<lparr>workers := (workers s)[k := Stopped]\<rparr>)"
| run: "\<lbrakk>exited s = None; k < length (workers s); workers s ! k = Running cmd\<rbrakk>
     \<Longrightarrow> step total s (s\<lparr>workers := (workers s)[k := Sending (runCommand cmd env)]\<rparr>)"
| collect: "\<lbrakk>exited s = None; loop_i s < total; k < length (workers s);
             workers s ! k = Sending result\<rbrakk>
     \<Longrightarrow> step total s
           (s\<lparr>workers := (workers s)[k := Idle], loop_i := loop_i s + 1,
              received := received s @ [result],
              failedCms := (if \<not> Success result then failedCms s @ [result] else failedCms s)\<rparr>)"
| exit: "\<lbrakk>exited s = None; \<not> loop_i s < total\<rbrakk>
     \<Longrightarrow> step total s
           (s\<lparr>printed := report (failedCms s), exited := Some (exit_status (failedCms s))\<rparr>)"

text \<open>
  Lines 57-63: \<^verbatim>\<open>maxconcurrency\<close> workers are started (none when the flag \<^verbatim>\<open>-n\<close> is below 1),
  and nothing has been published or collected.
\<close>

definition init :: "int \<Rightarrow> Command list \<Rightarrow> system" where
  "init maxconcurrency cmds =
     \<lparr>queue = cmds, closed = False, workers = replicate (nat maxconcurrency) Idle, loop_i = 0,
      received = [], failedCms = [], printed = [], exited = None\<rparr>"

definition reachable :: "int \<Rightarrow> Command list \<Rightarrow> system \<Rightarrow> bool" where
  "reachable maxconcurrency cmds s = (step (length cmds))\<^sup>*\<^sup>* (init maxconcurrency cmds) s"

text \<open>The exit status of the process as its host reports it, once \<^verbatim>\<open>os.Exit\<close> has been called.\<close>

definition process_exit_status :: "system \<Rightarrow> int option" where
  "process_exit_status s = map_option host_exit_status (exited s)"

text \<open>The commands a worker holds, and the number of workers that run an external command.\<close>

fun held :: "worker_state \<Rightarrow> Command list" where
  "held (Running cmd) = [cmd]"
| "held (Sending result) = [CommandResult.Command result]"
| "held _ = []"

definition inflight :: "worker_state list \<Rightarrow> Command list" where
  "inflight ws = concat (map held ws)"

fun is_Running :: "worker_state \<Rightarrow> bool" where
  "is_Running (Running cmd) = True"
| "is_Running _ = False"

definition executing :: "system \<Rightarrow> nat" where
  "executing s = length (filter is_Running (workers s))"

text \<open>Every command is in exactly one place: collected, with a worker, or not yet sent.\<close>

fun sending :: "worker_state \<Rightarrow> CommandResult list" where
  "sending (Sending result) = [result]"
| "sending _ = []"

text \<open>The results made so far: those collected and those a worker is waiting to hand over.\<close>

definition produced :: "system \<Rightarrow> CommandResult multiset" where
  "produced s = mset (received s) + mset (concat (map sending (workers s)))"

definition accounted :: "system \<Rightarrow> Command multiset" where
  "accounted s = mset (map CommandResult.Command (received s)) + mset (inflight (workers s))
                   + mset (queue s)"

definition inv :: "int \<Rightarrow> Command list \<Rightarrow> system \<Rightarrow> bool" where
  "inv n cmds s \<longleftrightarrow>
     length (workers s) = nat n
   \<and> accounted s = mset cmds
   \<and> loop_i s = length (received s)
   \<and> failedCms s = filter (\<lambda>r. \<not> Success r) (received s)
   \<and> (closed s \<longrightarrow> queue s = [])
   \<and> (Stopped \<in> set (workers s) \<longrightarrow> closed s)
   \<and> (exited s = None \<longrightarrow> printed s = [])
   \<and> (exited s \<noteq> None \<longrightarrow>
        loop_i s = length cmds \<and> exited s = Some (exit_status (failedCms s))
        \<and> printed s = report (failedCms s))"

text \<open>A measure of the work left, which every step lowers.\<close>

fun weight :: "worker_state \<Rightarrow> nat" where
  "weight Stopped = 0"
| "weight Idle = 1"
| "weight (Sending result) = 2"
| "weight (Running cmd) = 3"

definition remaining :: "system \<Rightarrow> nat" where
  "remaining s = 3 * length (queue s) + sum_list (map weight (workers s))
                 + (if closed s then 0 else 1) + (if exited s = None then 1 else 0)"

section \<open>Example inputs\<close>

text \<open>
  Two commands as \<^verbatim>\<open>main\<close> builds them, answers of the operating system (a process that
  exits with status 0, one that exits with status 1, an executable that cannot be started),
  and two states of a batch of both commands with two workers: both commands running, and
  the batch finished with one failure.
\<close>

definition cmd_a :: Command where
  "cmd_a = \<lparr>WorkingDir = ''a'', Command = ''git'', Args = [''fetch'']\<rparr>"

definition cmd_b :: Command where
  "cmd_b = \<lparr>WorkingDir = ''b'', Command = ''git'', Args = [''fetch'']\<rparr>"

definition cmd_sub :: Command where
  "cmd_sub = \<lparr>WorkingDir = ''work/repo'', Command = ''git'', Args = [''fetch'']\<rparr>"

definition env_ok :: proc_env where
  "env_ok = \<lparr>start_err = None, exit_state = Exited 0, io_err = None, timedOut = False\<rparr>"

definition env_fail :: proc_env where
  "env_fail = \<lparr>start_err = None, exit_state = Exited 1, io_err = None, timedOut = False\<rparr>"

definition env_nospawn :: proc_env where
  "env_nospawn = \<lparr>start_err = Some ''exec: git: executable file not found'',
                   exit_state = Exited 0, io_err = None, timedOut = False\<rparr>"

definition res_a :: CommandResult where
  "res_a = \<lparr>Success = True, Error = None, Command = cmd_a\<rparr>"

definition res_b :: CommandResult where
  "res_b = \<lparr>Success = False, Error = Some (OSError ''exec: git: executable file not found''),
             Command = cmd_b\<rparr>"

definition both_running :: system where
  "both_running = \<lparr>queue = [], closed = False, workers = [Running cmd_a, Running cmd_b],
                    loop_i = 0, received = [], failedCms = [], printed = [], exited = None\<rparr>"

definition batch_done :: system where
  "batch_done = \<lparr>queue = [], closed = False, workers = [Idle, Idle],
                  loop_i = 2, received = [res_b, res_a], failedCms = [res_b],
                  printed = report [res_b], exited = Some 1\<rparr>"

text \<open>
  More commands: one with a newline in an argument, one with an empty working directory and
  one in the root directory. More answers of the operating system: a process that the
  timer's signal ended with the flag seen, and a process that exited with status 0 while
  copying its output failed.
\<close>

definition cmd_nl :: Command where
  "cmd_nl = \<lparr>WorkingDir = ''repo'', Command = ''git'',
              Args = [''commit'', ''-m'', ''a'' @ [CHR 0x0A] @ ''b'']\<rparr>"

definition cmd_empty :: Command where
  "cmd_empty = \<lparr>WorkingDir = [], Command = ''git'', Args = [''fetch'']\<rparr>"

definition cmd_root :: Command where
  "cmd_root = \<lparr>WorkingDir = ''/'', Command = ''git'', Args = [''fetch'']\<rparr>"

definition env_timeout :: proc_env where
  "env_timeout = \<lparr>start_err = None, exit_state = Signaled ''killed'', io_err = None,
                   timedOut = True\<rparr>"

definition env_io :: proc_env where
  "env_io = \<lparr>start_err = None, exit_state = Exited 0, io_err = Some ''write: broken pipe'',
              timedOut = False\<rparr>"

text \<open>
  A batch in which no executable can be started, served by the first worker one command
  after the other: \<open>served n cmds k\<close> is the state after \<open>k\<close> commands have been published,
  have failed and have been collected. And such a batch of 256 repositories, at its exit.
\<close>

definition served :: "int \<Rightarrow> Command list \<Rightarrow> nat \<Rightarrow> system" where
  "served n cmds k =
     \<lparr>queue = drop k cmds, closed = False, workers = replicate (nat n) Idle, loop_i = k,
      received = map (\<lambda>c. runCommand c env_nospawn) (take k cmds),
      failedCms = map (\<lambda>c. runCommand c env_nospawn) (take k cmds),
      printed = [], exited = None\<rparr>"

definition many_cmds :: "Command list" where
  "many_cmds = main_commands (map itoa [0..<256]) [''fetch'']"

definition many_failed :: system where
  "many_failed = (served 1 many_cmds 256)
     \<lparr>printed := report (failedCms (served 1 many_cmds 256)), exited := Some 256\<rparr>"

text \<open>
  File systems: one where every \<^verbatim>\<open>os.Stat\<close> fails with an error other than not-exist and no
  path exists (directories without search permission), one where every path exists. And
  a Unicode comparison that is never consulted on ASCII names.
\<close>

definition denied_fs :: "string \<Rightarrow> stat_result" where
  "denied_fs path = StatFailed"

definition no_files :: "string \<Rightarrow> bool" where
  "no_files path = False"

definition git_fs :: "string \<Rightarrow> stat_result" where
  "git_fs path = StatOk"

definition no_unicode :: "string \<Rightarrow> string \<Rightarrow> bool" where
  "no_unicode s t = False"

section \<open>Properties of runCommand\<close>

lemma runCommand_Command: "CommandResult.Command (runCommand c env) = c"
  by (simp add: runCommand_def after_wait_def split: option.splits)

text \<open>
  When line 167 reads the flag as false, for a process that was started: when the process
  exits with status 0 and \<^verbatim>\<open>Wait\<close> reports no error, the result is marked successful; when the process ends in any other way (a non-zero exit
  status in particular), the result is marked failed and its error is the fixed message
  "exited with non-zero exit code", the same for every exit status, so the numeric status
  is not part of the result.
\<close>

lemma runCommand_exit_code:
  assumes "start_err env = None" and "\<not> timedOut env"
  shows "(exit_state env = Exited 0 \<and> io_err env = None \<longrightarrow>
            runCommand c env = \<lparr>Success = True, Error = None, Command = c\<rparr>)
       \<and> (exit_state env \<noteq> Exited 0 \<longrightarrow>
            runCommand c env =
              \<lparr>Success = False, Error = Some (Errorf ''exited with non-zero exit code''),
               Command = c\<rparr>)"
  using assms by (simp add: runCommand_def after_wait_def Wait_def)

lemma runCommand_exit_code_example:
  "runCommand \<lparr>WorkingDir = ''repo'', Command = ''git'', Args = [''status'']\<rparr>
     \<lparr>start_err = None, exit_state = Exited 0, io_err = None, timedOut = False\<rparr>
   = \<lparr>Success = True, Error = None,
      Command = \<lparr>WorkingDir = ''repo'', Command = ''git'', Args = [''status'']\<rparr>\<rparr>
 \<and> runCommand \<lparr>WorkingDir = ''repo'', Command = ''git'', Args = [''status'']\<rparr>
     \<lparr>start_err = None, exit_state = Exited 128, io_err = None, timedOut = False\<rparr>
   = \<lparr>Success = False, Error = Some (Errorf ''exited with non-zero exit code''),
      Command = \<lparr>WorkingDir = ''repo'', Command = ''git'', Args = [''status'']\<rparr>\<rparr>"
  using runCommand_exit_code
          [of "\<lparr>start_err = None, exit_state = Exited 0, io_err = None, timedOut = False\<rparr>"
              "\<lparr>WorkingDir = ''repo'', Command = ''git'', Args = [''status'']\<rparr>"]
        runCommand_exit_code
          [of "\<lparr>start_err = None, exit_state = Exited 128, io_err = None, timedOut = False\<rparr>"
              "\<lparr>WorkingDir = ''repo'', Command = ''git'', Args = [''status'']\<rparr>"]
  by simp

section \<open>Properties of the timer goroutine\<close>

lemma race_inv_init: "race_inv c race_init"
  by (simp add: race_inv_def race_init_def)

lemma race_inv_step:
  assumes "race_step c r r'" and "race_inv c r"
  shows "race_inv c r'"
  using assms
proof (cases rule: race_step.cases)
  case (proc_exits code)
  with assms(2) show ?thesis by (auto simp: race_inv_def)
next
  case timer_fires
  with assms(2) show ?thesis by (auto simp: race_inv_def)
next
  case signal
  with assms(2) show ?thesis by (auto simp: race_inv_def)
next
  case set_flag
  with assms(2) show ?thesis by (fastforce simp: race_inv_def)
next
  case (wait_returns st io)
  with assms(2) show ?thesis by (auto simp: race_inv_def)
next
  case (check err)
  with assms(2) show ?thesis by (fastforce simp: race_inv_def)
qed

lemma race_reachable_inv: "race_reachable c r \<Longrightarrow> race_inv c r"
  unfolding race_reachable_def
  by (induction rule: rtranclp_induct) (simp_all add: race_inv_init race_inv_step)

lemma race_result_runCommand:
  assumes "race_reachable c r" and "waiter r = WReturned res"
  shows "\<exists>st io flag. proc r = PEnded st
           \<and> res = runCommand c \<lparr>start_err = None, exit_state = st, io_err = io, timedOut = flag\<rparr>"
  using race_reachable_inv[OF assms(1)] assms(2) by (fastforce simp: race_inv_def runCommand_def)

lemma race_step_weight:
  assumes "race_step c r r'"
  shows "race_weight r' < race_weight r"
  using assms by (cases rule: race_step.cases) (auto simp: race_weight_def)

lemma race_progress:
  assumes I: "race_inv c r" and nr: "\<forall>res. waiter r \<noteq> WReturned res"
  shows "\<exists>r'. race_step c r r'"
proof (cases "waiter r")
  case WWait
  show ?thesis
  proof (cases "proc r")
    case PRunning
    show ?thesis
    proof (cases "timer r")
      case TWait
      from race_step.timer_fires[OF this] show ?thesis by blast
    next
      case TSignal
      from race_step.signal[OF this] show ?thesis by blast
    next
      case TSetFlag
      from race_step.set_flag[OF this] show ?thesis by blast
    next
      case TDone
      with I PRunning show ?thesis by (simp add: race_inv_def)
    qed
  next
    case (PEnded st)
    from race_step.wait_returns[OF WWait this] show ?thesis by blast
  qed
next
  case (WCheck err)
  from race_step.check[OF this] show ?thesis by blast
next
  case (WReturned res)
  with nr show ?thesis by simp
qed

text \<open>
  Every call of \<^verbatim>\<open>runCommand\<close> returns: a schedule cannot go on for ever, and it can go on
  until the result is there, also for a process that never exits by itself (the timer's
  signal ends it).
\<close>

lemma race_returns:
  assumes "race_inv c r"
  shows "\<exists>r' res. (race_step c)\<^sup>*\<^sup>* r r' \<and> waiter r' = WReturned res"
  using assms
proof (induction "race_weight r" arbitrary: r rule: less_induct)
  case less
  show ?case
  proof (cases "\<exists>res. waiter r = WReturned res")
    case True
    then show ?thesis by blast
  next
    case False
    then have "\<forall>res. waiter r \<noteq> WReturned res" by blast
    from race_progress[OF less.prems this] obtain r1 where r1: "race_step c r r1" by blast
    from less.hyps[OF race_step_weight[OF r1] race_inv_step[OF r1 less.prems]]
    obtain r' res where "(race_step c)\<^sup>*\<^sup>* r1 r'" "waiter r' = WReturned res" by blast
    with r1 show ?thesis by (meson converse_rtranclp_into_rtranclp)
  qed
qed

text \<open>While the timer has not fired, the flag is read as false.\<close>

lemma race_no_timeout:
  assumes "race_reachable c r" and "waiter r = WReturned res" and "timer r = TWait"
  shows "\<exists>st io. proc r = PEnded st \<and> res = after_wait c (Wait st io) False"
  using race_reachable_inv[OF assms(1)] assms(2,3) by (fastforce simp: race_inv_def)

lemma race_killed_not_successful:
  assumes "race_reachable c r" and "waiter r = WReturned res"
    and "proc r = PEnded (Signaled ''killed'')"
  shows "\<not> Success res
       \<and> (Error res = Some (Errorf (''process timed out: '' @ String c))
          \<or> Error res = Some (Errorf ''exited with non-zero exit code''))"
proof -
  from race_reachable_inv[OF assms(1)] assms(2,3)
  obtain io flag where "res = after_wait c (Wait (Signaled ''killed'') io) flag"
    by (auto simp: race_inv_def)
  then show ?thesis by (simp add: Wait_def after_wait_def)
qed

lemma race_timeout_error_when_flag_set:
  assumes "race_reachable c r" and "waiter r = WCheck (Some err)" and "timedOut_var r"
  shows "race_step c r
           (r\<lparr>waiter := WReturned \<lparr>Success = False,
                 Error = Some (Errorf (''process timed out: '' @ String c)), Command = c\<rparr>\<rparr>)"
  using race_step.check[OF assms(2), of c] assms(3) by (simp add: after_wait_def)

text \<open>
  Claim C3 asks that a task whose process runs longer than the timeout is always reported
  as failed with the timeout error, with its process killed. The straightforward schedule
  does that (\<open>race_timeout_error_when_flag_set\<close>), and a process that the timer's signal
  ended is never reported as successful (\<open>race_killed_not_successful\<close>). But the flag is
  written after the signal is sent and read without synchronisation. The theorem evaluates
  the schedule in which the timer fires while the process runs, line 160 kills the process,
  \<^verbatim>\<open>Wait\<close> returns and line 167 reads the flag before line 161 has set it: the process
  overran and was killed, and the result carries the error for a non-zero exit status, not
  the timeout error.
\<close>

theorem timeout_reported_as_exit_code:
  "race_reachable cmd_a
     \<lparr>proc = PEnded (Signaled ''killed''), timer = TSetFlag, timedOut_var = False,
      waiter = WReturned \<lparr>Success = False,
                          Error = Some (Errorf ''exited with non-zero exit code''),
                          Command = cmd_a\<rparr>,
      overran = True\<rparr>"
proof -
  let ?r1 = "\<lparr>proc = PRunning, timer = TSignal, timedOut_var = False, waiter = WWait,
              overran = True\<rparr>"
  let ?r2 = "\<lparr>proc = PEnded (Signaled ''killed''), timer = TSetFlag, timedOut_var = False,
              waiter = WWait, overran = True\<rparr>"
  let ?r3 = "\<lparr>proc = PEnded (Signaled ''killed''), timer = TSetFlag, timedOut_var = False,
              waiter = WCheck (Some (ExitError (Signaled ''killed''))), overran = True\<rparr>"
  have "race_step cmd_a race_init ?r1"
    using race_step.timer_fires[of race_init cmd_a] by (simp add: race_init_def)
  then have "(race_step cmd_a)\<^sup>*\<^sup>* race_init ?r1" by (rule r_into_rtranclp)
  moreover have "race_step cmd_a ?r1 ?r2"
    using race_step.signal[of ?r1 cmd_a] by simp
  ultimately have "(race_step cmd_a)\<^sup>*\<^sup>* race_init ?r2" by (rule rtranclp.rtrancl_into_rtrancl)
  moreover have "race_step cmd_a ?r2 ?r3"
    using race_step.wait_returns[of ?r2 "Signaled ''killed''" cmd_a None] by (simp add: Wait_def)
  ultimately have "(race_step cmd_a)\<^sup>*\<^sup>* race_init ?r3" by (rule rtranclp.rtrancl_into_rtrancl)
  moreover have "race_step cmd_a ?r3
     \<lparr>proc = PEnded (Signaled ''killed''), timer = TSetFlag, timedOut_var = False,
      waiter = WReturned \<lparr>Success = False,
                          Error = Some (Errorf ''exited with non-zero exit code''),
                          Command = cmd_a\<rparr>,
      overran = True\<rparr>"
    using race_step.check[of ?r3 "Some (ExitError (Signaled ''killed''))" cmd_a]
    by (simp add: after_wait_def)
  ultimately show ?thesis unfolding race_reachable_def by (rule rtranclp.rtrancl_into_rtrancl)
qed

text \<open>
  A second schedule: the timer fires while the process runs, and the process exits with
  status 0 by itself before line 160 is reached. The task overran and is reported as
  successful.
\<close>

lemma overrun_reported_successful:
  "race_reachable cmd_a
     \<lparr>proc = PEnded (Exited 0), timer = TSignal, timedOut_var = False,
      waiter = WReturned \<lparr>Success = True, Error = None, Command = cmd_a\<rparr>,
      overran = True\<rparr>"
proof -
  let ?r1 = "\<lparr>proc = PRunning, timer = TSignal, timedOut_var = False, waiter = WWait,
              overran = True\<rparr>"
  let ?r2 = "\<lparr>proc = PEnded (Exited 0), timer = TSignal, timedOut_var = False,
              waiter = WWait, overran = True\<rparr>"
  let ?r3 = "\<lparr>proc = PEnded (Exited 0), timer = TSignal, timedOut_var = False,
              waiter = WCheck None, overran = True\<rparr>"
  have "race_step cmd_a race_init ?r1"
    using race_step.timer_fires[of race_init cmd_a] by (simp add: race_init_def)
  then have "(race_step cmd_a)\<^sup>*\<^sup>* race_init ?r1" by (rule r_into_rtranclp)
  moreover have "race_step cmd_a ?r1 ?r2"
    using race_step.proc_exits[of ?r1 cmd_a 0] by simp
  ultimately have "(race_step cmd_a)\<^sup>*\<^sup>* race_init ?r2" by (rule rtranclp.rtrancl_into_rtrancl)
  moreover have "race_step cmd_a ?r2 ?r3"
    using race_step.wait_returns[of ?r2 "Exited 0" cmd_a None] by (simp add: Wait_def)
  ultimately have "(race_step cmd_a)\<^sup>*\<^sup>* race_init ?r3" by (rule rtranclp.rtrancl_into_rtrancl)
  moreover have "race_step cmd_a ?r3
     \<lparr>proc = PEnded (Exited 0), timer = TSignal, timedOut_var = False,
      waiter = WReturned \<lparr>Success = True, Error = None, Command = cmd_a\<rparr>,
      overran = True\<rparr>"
    using race_step.check[of ?r3 None cmd_a] by (simp add: after_wait_def)
  ultimately show ?thesis unfolding race_reachable_def by (rule rtranclp.rtrancl_into_rtrancl)
qed

lemma race_exit_before_timer:
  assumes "race_reachable c r" and "waiter r = WReturned res" and "timer r = TWait"
  shows "\<exists>st io. proc r = PEnded st
       \<and> res = runCommand c \<lparr>start_err = None, exit_state = st, io_err = io, timedOut = False\<rparr>
       \<and> (st = Exited 0 \<and> io = None \<longrightarrow> res = \<lparr>Success = True, Error = None, Command = c\<rparr>)
       \<and> (st \<noteq> Exited 0 \<longrightarrow>
            res = \<lparr>Success = False, Error = Some (Errorf ''exited with non-zero exit code''),
                   Command = c\<rparr>)"
proof -
  from race_no_timeout[OF assms] obtain st io where
    p: "proc r = PEnded st" and r: "res = after_wait c (Wait st io) False" by blast
  then show ?thesis
    by (intro exI[of _ st] exI[of _ io]) (simp add: runCommand_def after_wait_def Wait_def)
qed

lemma race_exit_zero_is_success:
  assumes "race_reachable c r" and "waiter r = WReturned res" and "Success res"
  shows "proc r = PEnded (Exited 0) \<and> res = \<lparr>Success = True, Error = None, Command = c\<rparr>"
proof -
  from race_reachable_inv[OF assms(1)] assms(2)
  obtain st io flag where "proc r = PEnded st" "res = after_wait c (Wait st io) flag"
    by (auto simp: race_inv_def)
  with assms(3) show ?thesis
    by (auto simp: after_wait_def Wait_def split: option.splits if_splits)
qed

text \<open>
  Claim C4 asks that a task that is not timed out is reported by its exit status alone:
  successful for status 0, failed with the fixed message for any other status. A result is
  marked successful exactly for a process that exited with status 0
  (\<open>race_exit_zero_is_success\<close>), and while the timer has not fired the result is as the
  claim says (\<open>race_exit_before_timer\<close>). But the timer is never stopped, and the flag it
  sets is read after \<^verbatim>\<open>Wait\<close> returns. The theorem evaluates the schedule in which the process
  exits with status 1 before the timer fires (it did not overrun), the timer fires and lines
  160 and 161 run before \<^verbatim>\<open>Wait\<close> has returned, and line 167 reads the flag as true: the
  task is reported as timed out.
\<close>

theorem early_exit_reported_as_timeout:
  "race_reachable cmd_a
     \<lparr>proc = PEnded (Exited 1), timer = TDone, timedOut_var = True,
      waiter = WReturned \<lparr>Success = False,
                          Error = Some (Errorf (''process timed out: '' @ String cmd_a)),
                          Command = cmd_a\<rparr>,
      overran = False\<rparr>"
proof -
  let ?r1 = "\<lparr>proc = PEnded (Exited 1), timer = TWait, timedOut_var = False, waiter = WWait,
              overran = False\<rparr>"
  let ?r2 = "\<lparr>proc = PEnded (Exited 1), timer = TSignal, timedOut_var = False, waiter = WWait,
              overran = False\<rparr>"
  let ?r3 = "\<lparr>proc = PEnded (Exited 1), timer = TSetFlag, timedOut_var = False, waiter = WWait,
              overran = False\<rparr>"
  let ?r4 = "\<lparr>proc = PEnded (Exited 1), timer = TDone, timedOut_var = True, waiter = WWait,
              overran = False\<rparr>"
  let ?r5 = "\<lparr>proc = PEnded (Exited 1), timer = TDone, timedOut_var = True,
              waiter = WCheck (Some (ExitError (Exited 1))), overran = False\<rparr>"
  have "race_step cmd_a race_init ?r1"
    using race_step.proc_exits[of race_init cmd_a 1] by (simp add: race_init_def)
  then have "(race_step cmd_a)\<^sup>*\<^sup>* race_init ?r1" by (rule r_into_rtranclp)
  moreover have "race_step cmd_a ?r1 ?r2"
    using race_step.timer_fires[of ?r1 cmd_a] by simp
  ultimately have "(race_step cmd_a)\<^sup>*\<^sup>* race_init ?r2" by (rule rtranclp.rtrancl_into_rtrancl)
  moreover have "race_step cmd_a ?r2 ?r3"
    using race_step.signal[of ?r2 cmd_a] by simp
  ultimately have "(race_step cmd_a)\<^sup>*\<^sup>* race_init ?r3" by (rule rtranclp.rtrancl_into_rtrancl)
  moreover have "race_step cmd_a ?r3 ?r4"
    using race_step.set_flag[of ?r3 cmd_a] by simp
  ultimately have "(race_step cmd_a)\<^sup>*\<^sup>* race_init ?r4" by (rule rtranclp.rtrancl_into_rtrancl)
  moreover have "race_step cmd_a ?r4 ?r5"
    using race_step.wait_returns[of ?r4 "Exited 1" cmd_a None] by (simp add: Wait_def)
  ultimately have "(race_step cmd_a)\<^sup>*\<^sup>* race_init ?r5" by (rule rtranclp.rtrancl_into_rtrancl)
  moreover have "race_step cmd_a ?r5
     \<lparr>proc = PEnded (Exited 1), timer = TDone, timedOut_var = True,
      waiter = WReturned \<lparr>Success = False,
                          Error = Some (Errorf (''process timed out: '' @ String cmd_a)),
                          Command = cmd_a\<rparr>,
      overran = False\<rparr>"
    using race_step.check[of ?r5 "Some (ExitError (Exited 1))" cmd_a]
    by (simp add: after_wait_def)
  ultimately show ?thesis unfolding race_reachable_def by (rule rtranclp.rtrancl_into_rtrancl)
qed

section \<open>Properties of the discovery\<close>

lemma discover_filter:
  "discover uni stat ex repos dirs = repos @ map Name (filter (kept uni stat ex) dirs)"
  by (induction dirs arbitrary: repos) (simp_all add: kept_def)

lemma main_repos_iff:
  "name \<in> set (main_repos uni stat excl rd) \<longleftrightarrow>
     (\<exists>entries. rd = Inr entries \<and>
        (\<exists>d\<in>set entries. Name d = name \<and> kept uni stat (Split excl (CHR '','')) d))"
  by (cases rd) (auto simp: main_repos_def discover_filter)

lemma toLower_eq_iff:
  assumes "(of_char a :: nat) < 128" "(of_char b :: nat) < 128"
  shows "toLower a = toLower b \<longleftrightarrow>
     (b = a \<or> (let lo = min (of_char a) (of_char b) :: nat; hi = max (of_char a) (of_char b) :: nat
            in 65 \<le> lo \<and> lo \<le> 90 \<and> hi = lo + 32))"
proof -
  have inj: "\<And>x y :: char. (of_char x :: nat) = of_char y \<longleftrightarrow> x = y"
    by (simp add: of_char_eq_iff)
  have up: "\<And>c :: char. (of_char c :: nat) \<le> 90 \<Longrightarrow> (of_char (char_of ((of_char c :: nat) + 32) :: char) :: nat) = of_char c + 32"
    by (simp add: of_char_of)
  show ?thesis
    unfolding toLower_def Let_def inj[symmetric, of "if _ then _ else _" "if _ then _ else _"] inj[symmetric, of b a]
    using up[of a] up[of b] by (auto simp: min_def max_def) (metis char_of_char)+
qed

lemma EqualFold_ascii:
  "ascii s \<Longrightarrow> ascii t \<Longrightarrow> EqualFold uni s t \<longleftrightarrow> map toLower s = map toLower t"
proof (induction uni s t rule: EqualFold.induct)
  case (1 uni sr s tr t)
  then show ?case
    using toLower_eq_iff[of sr tr]
    by (auto simp: ascii_def Let_def)
qed auto

text \<open>
  Claim C6, as amended. A name is in the task set only if \<^verbatim>\<open>os.Stat\<close> on its \<^verbatim>\<open>.git\<close> entry
  did not fail with a not-exist error; where the call did not fail in another way either,
  the directory does contain the entry. A name that \<^verbatim>\<open>strings.EqualFold\<close> matches with an
  entry of the exclude list is not in the task set; for ASCII names that is: a name equal
  to an entry of the list up to the case of its letters.
\<close>

theorem discovery_filters:
  "(name \<in> set (main_repos uni stat excl rd) \<longrightarrow>
       stat (name @ ''/.git'') \<noteq> StatNotExist
     \<and> (stat_agrees stat present \<and> stat (name @ ''/.git'') \<noteq> StatFailed \<longrightarrow> present (name @ ''/.git'')))
 \<and> ((\<exists>e\<in>set (Split excl (CHR '','')). EqualFold uni name e) \<longrightarrow>
       name \<notin> set (main_repos uni stat excl rd))
 \<and> (ascii name \<and> (\<exists>e\<in>set (Split excl (CHR '','')). ascii e \<and> map toLower e = map toLower name) \<longrightarrow>
       name \<notin> set (main_repos uni stat excl rd))"
proof -
  have a: "stat (name @ ''/.git'') \<noteq> StatNotExist" if "name \<in> set (main_repos uni stat excl rd)"
    using that by (auto simp: main_repos_iff kept_def)
  have b: "present (name @ ''/.git'')"
    if "name \<in> set (main_repos uni stat excl rd)" "stat_agrees stat present"
       "stat (name @ ''/.git'') \<noteq> StatFailed"
  proof -
    from a[OF that(1)] that(3) have "stat (name @ ''/.git'') = StatOk"
      by (cases "stat (name @ ''/.git'')") simp_all
    with that(2) show ?thesis by (simp add: stat_agrees_def)
  qed
  have c: "name \<notin> set (main_repos uni stat excl rd)"
    if "\<exists>e\<in>set (Split excl (CHR '','')). EqualFold uni name e"
    using that by (auto simp: main_repos_iff kept_def list_ex_iff)
  have d: "name \<notin> set (main_repos uni stat excl rd)"
    if "ascii name" "\<exists>e\<in>set (Split excl (CHR '','')). ascii e \<and> map toLower e = map toLower name"
  proof -
    from that obtain e where e: "e \<in> set (Split excl (CHR '',''))" "ascii e"
      "map toLower e = map toLower name" by blast
    with EqualFold_ascii[OF that(1) e(2), of uni] have "EqualFold uni name e" by simp
    with e(1) c show ?thesis by blast
  qed
  from a b c d show ?thesis by blast
qed

text \<open>
  The claim as stated, "included only if it contains the repository marker", fails: line 74
  skips a directory only when \<^verbatim>\<open>os.IsNotExist\<close> accepts the error. In a file system where
  nothing exists below \<^verbatim>\<open>foo\<close> and \<^verbatim>\<open>os.Stat\<close> fails with another error (no search
  permission), \<^verbatim>\<open>foo\<close> is in the task set.
\<close>

theorem discovery_marker_counterexample:
  "stat_agrees denied_fs no_files
 \<and> ''foo'' \<in> set (main_repos no_unicode denied_fs [] (Inr [\<lparr>Name = ''foo'', IsDir = True\<rparr>]))
 \<and> no_files ''foo/.git'' = False"
  by (simp add: stat_agrees_def denied_fs_def no_files_def main_repos_def HasSuffix_def Split.simps)

theorem discovery_filters_witness:
  "''foo'' \<in> set (main_repos no_unicode git_fs [] (Inr [\<lparr>Name = ''foo'', IsDir = True\<rparr>]))
 \<and> git_fs ''foo/.git'' \<noteq> StatNotExist
 \<and> stat_agrees git_fs (\<lambda>p. True)
 \<and> ''foo'' \<notin> set (main_repos no_unicode git_fs ''Foo'' (Inr [\<lparr>Name = ''foo'', IsDir = True\<rparr>]))
 \<and> ascii ''foo'' \<and> ascii ''Foo'' \<and> map toLower ''Foo'' = map toLower ''foo''
 \<and> ''Foo'' \<in> set (Split ''Foo'' (CHR '',''))
 \<and> EqualFold no_unicode ''foo'' ''Foo''"
proof -
  have low: "map toLower ''Foo'' = map toLower ''foo''" by code_simp
  have asc: "ascii ''foo''" "ascii ''Foo''" by (simp_all add: ascii_def)
  have spl: "Split ''Foo'' (CHR '','') = [''Foo'']" "Split [] (CHR '','') = [[]]"
    by (simp_all add: Split.simps)
  have agr: "stat_agrees git_fs (\<lambda>p. True)" by (simp add: stat_agrees_def git_fs_def)
  have inc: "''foo'' \<in> set (main_repos no_unicode git_fs [] (Inr [\<lparr>Name = ''foo'', IsDir = True\<rparr>]))"
    by (simp add: main_repos_def HasSuffix_def git_fs_def spl)
  from discovery_filters[of "''foo''" no_unicode git_fs "[]" "Inr [\<lparr>Name = ''foo'', IsDir = True\<rparr>]" "\<lambda>p. True"]
       discovery_filters[of "''foo''" no_unicode git_fs "''Foo''" "Inr [\<lparr>Name = ''foo'', IsDir = True\<rparr>]" "\<lambda>p. True"]
       low asc spl agr inc
  show ?thesis by simp
qed

text \<open>
  Claim C9. A name that ends in \<^verbatim>\<open>.git\<close> is never in the task set, whatever the file system
  answers for its \<^verbatim>\<open>.git\<close> entry, whatever the exclude list and the directory listing.
\<close>

theorem git_suffix_skipped:
  "HasSuffix name ''.git'' \<Longrightarrow> name \<notin> set (main_repos uni stat excl rd)"
  by (auto simp: main_repos_iff kept_def)

theorem git_suffix_skipped_witness:
  "HasSuffix ''bare.git'' ''.git''
 \<and> git_fs ''bare.git/.git'' = StatOk
 \<and> ''bare.git'' \<notin> set (main_repos no_unicode git_fs [] (Inr [\<lparr>Name = ''bare.git'', IsDir = True\<rparr>]))"
  using git_suffix_skipped[of "''bare.git''" no_unicode git_fs "[]" "Inr [\<lparr>Name = ''bare.git'', IsDir = True\<rparr>]"]
  by (simp add: HasSuffix_def git_fs_def)

section \<open>Properties of a worker's output\<close>

lemma Logger_Printf_prefix: "take (length prefix) (Logger_Printf prefix s) = prefix"
  by (simp add: Logger_Printf_def)

lemma Split_no_sep: "l \<in> set (Split buf sep) \<Longrightarrow> sep \<notin> set l"
proof (induction buf sep rule: Split.induct)
  case (1 s sep)
  show ?case
  proof (cases "sep \<in> set s")
    case True
    with "1.prems" have "l = takeWhile (\<lambda>c. c \<noteq> sep) s
        \<or> l \<in> set (Split (tl (dropWhile (\<lambda>c. c \<noteq> sep) s)) sep)"
      by (subst (asm) Split.simps) simp
    then show ?thesis
    proof
      assume "l = takeWhile (\<lambda>c. c \<noteq> sep) s"
      then show ?thesis by (auto dest: set_takeWhileD)
    next
      assume "l \<in> set (Split (tl (dropWhile (\<lambda>c. c \<noteq> sep) s)) sep)"
      with "1.IH"[OF True] show ?thesis .
    qed
  next
    case False
    with "1.prems" show ?thesis by (subst (asm) Split.simps) simp
  qed
qed

lemma Lines_no_newline: "l \<in> set (Lines buf) \<Longrightarrow> CHR 0x0A \<notin> set l"
  by (auto simp: Lines_def Let_def dest: Split_no_sep in_set_butlastD split: if_splits)

lemma Logger_Printf_line:
  "l \<in> set (Lines buf) \<Longrightarrow> Logger_Printf prefix l = prefix @ l @ [CHR 0x0A]"
  by (cases l rule: rev_cases) (auto simp: Logger_Printf_def dest: Lines_no_newline)

lemma runCommand_failed_Error: "\<not> Success (runCommand cmd env) \<Longrightarrow> Error (runCommand cmd env) \<noteq> None"
  by (auto simp: runCommand_def after_wait_def split: option.splits)

lemma Split_without_sep: "sep \<notin> set s \<Longrightarrow> Split s sep = [s]"
  by (subst Split.simps) simp

lemma Split_at_sep:
  assumes "sep \<notin> set l"
  shows "Split (l @ sep # rest) sep = l # Split rest sep"
proof -
  from assms have all: "\<forall>c\<in>set l. c \<noteq> sep" by auto
  then have tw: "takeWhile (\<lambda>c. c \<noteq> sep) (l @ sep # rest) = l"
    by (simp add: takeWhile_append)
  from all have dw: "dropWhile (\<lambda>c. c \<noteq> sep) (l @ sep # rest) = sep # rest"
    by (simp add: dropWhile_append)
  show ?thesis by (subst Split.simps) (simp add: tw dw)
qed

lemma Split_terminated_lines:
  "\<forall>l\<in>set ls. sep \<notin> set l \<Longrightarrow> Split (concat (map (\<lambda>l. l @ [sep]) ls)) sep = ls @ [[]]"
proof (induction ls)
  case Nil
  show ?case by (simp add: Split_without_sep)
next
  case (Cons l ls)
  then show ?case by (simp add: Split_at_sep)
qed

lemma Lines_terminated_lines:
  "\<forall>l\<in>set ls. CHR 0x0A \<notin> set l \<Longrightarrow> Lines (concat (map (\<lambda>l. l @ [CHR 0x0A]) ls)) = ls"
  by (simp add: Lines_def Split_terminated_lines)

lemma Base_chars: "set (Base path) \<subseteq> set path \<union> {CHR ''.'', CHR ''/''}"
proof -
  have "set (rev (takeWhile (\<lambda>c. c \<noteq> CHR ''/'') (rev (rev (dropWhile (\<lambda>c. c = CHR ''/'') (rev path))))))
          \<subseteq> set path"
    by (auto dest!: set_takeWhileD set_dropWhileD)
  then show ?thesis by (auto simp: Base_def Let_def)
qed

lemma task_prefix_no_newline:
  "CHR 0x0A \<notin> set (WorkingDir cmd) \<Longrightarrow> CHR 0x0A \<notin> set (task_prefix cmd)"
  using Base_chars[of "WorkingDir cmd"] by (auto simp: task_prefix_def)

lemma String_WorkingDir: "set (WorkingDir cmd) \<subseteq> set (String cmd)"
  by (auto simp: String_def)

lemma LogWriter_Flush_terminated:
  "LogWriter_Flush prefix buf = map (\<lambda>l. l @ [CHR 0x0A]) (map (\<lambda>l. prefix @ l) (Lines buf))"
  by (simp add: LogWriter_Flush_def Logger_Printf_line)

lemma Logger_Printf_terminated:
  "Logger_Printf prefix (m @ [CHR 0x0A]) = (prefix @ m) @ [CHR 0x0A]"
  by (simp add: Logger_Printf_def)

lemma worker_stdout_lines:
  assumes "CHR 0x0A \<notin> set (String cmd)"
  shows "Lines (concat (Logger_Printf (task_prefix cmd) (''--> '' @ String cmd @ [CHR 0x0A])
                         # LogWriter_Flush (task_prefix cmd) pout))
         = (task_prefix cmd @ ''--> '' @ String cmd) # map (\<lambda>l. task_prefix cmd @ l) (Lines pout)"
proof -
  let ?p = "task_prefix cmd"
  let ?ls = "(?p @ ''--> '' @ String cmd) # map (\<lambda>l. ?p @ l) (Lines pout)"
  from assms String_WorkingDir[of cmd] have "CHR 0x0A \<notin> set (WorkingDir cmd)" by auto
  then have p: "CHR 0x0A \<notin> set ?p" by (rule task_prefix_no_newline)
  with assms have "\<forall>l\<in>set ?ls. CHR 0x0A \<notin> set l"
    by (auto dest: Lines_no_newline)
  from Lines_terminated_lines[OF this]
  have "Lines (concat (map (\<lambda>l. l @ [CHR 0x0A]) ?ls)) = ?ls" .
  moreover have "Logger_Printf ?p (''--> '' @ String cmd @ [CHR 0x0A]) # LogWriter_Flush ?p pout
                 = map (\<lambda>l. l @ [CHR 0x0A]) ?ls"
    using Logger_Printf_terminated[of ?p "''--> '' @ String cmd"]
    by (simp add: LogWriter_Flush_terminated)
  ultimately show ?thesis by simp
qed

lemma worker_stderr_lines:
  assumes "CHR 0x0A \<notin> set (WorkingDir cmd)" and "\<forall>m\<in>set ms. CHR 0x0A \<notin> set m"
  shows "Lines (concat (LogWriter_Flush (task_prefix cmd) perr
                         @ map (\<lambda>m. Logger_Printf (task_prefix cmd) (m @ [CHR 0x0A])) ms))
         = map (\<lambda>l. task_prefix cmd @ l) (Lines perr @ ms)"
proof -
  let ?p = "task_prefix cmd"
  let ?ls = "map (\<lambda>l. ?p @ l) (Lines perr @ ms)"
  from assms(1) have p: "CHR 0x0A \<notin> set ?p" by (rule task_prefix_no_newline)
  with assms(2) have "\<forall>l\<in>set ?ls. CHR 0x0A \<notin> set l"
    by (auto dest: Lines_no_newline)
  from Lines_terminated_lines[OF this]
  have "Lines (concat (map (\<lambda>l. l @ [CHR 0x0A]) ?ls)) = ?ls" .
  moreover have "map (\<lambda>m. Logger_Printf ?p (m @ [CHR 0x0A])) ms
                 = map (\<lambda>l. l @ [CHR 0x0A]) (map (\<lambda>l. ?p @ l) ms)"
    by (simp add: Logger_Printf_def)
  then have "LogWriter_Flush ?p perr @ map (\<lambda>m. Logger_Printf ?p (m @ [CHR 0x0A])) ms
                 = map (\<lambda>l. l @ [CHR 0x0A]) ?ls"
    by (simp only: LogWriter_Flush_terminated map_append)
  ultimately show ?thesis by (simp only:)
qed

lemma Base_element:
  assumes "name \<noteq> []" and "CHR ''/'' \<notin> set name"
  shows "Base (dir @ ''/'' @ name @ replicate k (CHR ''/'')) = name"
    and "Base (name @ replicate k (CHR ''/'')) = name"
proof -
  from assms(1) obtain c cs where r: "rev name = c # cs" by (cases "rev name") auto
  with assms(2) have c: "c \<noteq> CHR ''/''" by (metis list.set_intros(1) set_rev)
  have dw: "dropWhile (\<lambda>c. c = CHR ''/'') (replicate k (CHR ''/'') @ rev name @ ys) = rev name @ ys" for ys
    using r c by (simp add: dropWhile_append)
  from assms(2) have tw: "takeWhile (\<lambda>c. c \<noteq> CHR ''/'') (rev name @ CHR ''/'' # ys) = rev name" for ys
    by (auto simp: takeWhile_tail)
  from assms(2) have tw0: "takeWhile (\<lambda>c. c \<noteq> CHR ''/'') (rev name) = rev name"
    by auto
  from assms(1) show "Base (dir @ ''/'' @ name @ replicate k (CHR ''/'')) = name"
    using dw[of "CHR ''/'' # rev dir"] by (simp add: Base_def tw)
  from assms(1) show "Base (name @ replicate k (CHR ''/'')) = name"
    using dw[of "[]"] by (simp add: Base_def tw0)
qed

lemma Base_slashes: "Base (replicate (Suc k) (CHR ''/'')) = ''/''"
proof -
  have "dropWhile (\<lambda>c. c = CHR ''/'') (replicate (Suc k) (CHR ''/'')) = []"
    by (simp del: replicate_Suc)
  then show ?thesis by (simp add: Base_def del: replicate_Suc)
qed

text \<open>
  Claim C7, as amended. One iteration of a worker never panics and sends the result of
  \<^verbatim>\<open>runCommand\<close>. Every call of the task's loggers writes text that starts with the task's
  prefix. When the description of the command (executable, arguments, working directory)
  holds no newline, the lines on standard output are exactly the prefixed header and the
  prefixed lines of the process's output (written through the log writer as the spec
  describes it). A failed task writes a last line to standard error: the prefix,
  \<^verbatim>\<open>error: \<close> and the message, which is the error of \<^verbatim>\<open>Start\<close>, the timeout message with
  the command's description, the fixed message for a non-zero exit, or the error of \<^verbatim>\<open>Wait\<close>;
  when the working directory and the message hold no newline, the lines on standard error
  are exactly the prefixed lines of the process's error output and then that line, and for a
  successful task the prefixed lines alone. The prefix is the last element of the working
  directory in brackets and a space: the name itself for a plain name, \<^verbatim>\<open>name\<close> for
  \<^verbatim>\<open>dir/name\<close>, a dot for the empty path and a slash for the root.
\<close>

theorem worker_lines_labelled:
  "\<exists>out. worker_task cmd env pout perr = Some (out, runCommand cmd env)
     \<and> (\<forall>w\<in>set (to_stdout out) \<union> set (to_stderr out).
           take (length (task_prefix cmd)) w = task_prefix cmd)
     \<and> (CHR 0x0A \<notin> set (String cmd) \<longrightarrow>
           Lines (concat (to_stdout out))
             = (task_prefix cmd @ ''--> '' @ String cmd)
               # map (\<lambda>l. task_prefix cmd @ l) (Lines pout))
     \<and> (CHR 0x0A \<notin> set (WorkingDir cmd) \<and> Success (runCommand cmd env) \<longrightarrow>
           Lines (concat (to_stderr out)) = map (\<lambda>l. task_prefix cmd @ l) (Lines perr))
     \<and> (\<forall>m. start_err env = Some m \<longrightarrow>
           last (to_stderr out) = task_prefix cmd @ ''error: '' @ m @ [CHR 0x0A])
     \<and> (start_err env = None \<and> Wait (exit_state env) (io_err env) \<noteq> None \<and> timedOut env \<longrightarrow>
           last (to_stderr out)
             = task_prefix cmd @ ''error: process timed out: '' @ String cmd @ [CHR 0x0A])
     \<and> (start_err env = None \<and> exit_state env \<noteq> Exited 0 \<and> \<not> timedOut env \<longrightarrow>
           last (to_stderr out)
             = task_prefix cmd @ ''error: exited with non-zero exit code'' @ [CHR 0x0A])
     \<and> (\<forall>m. start_err env = None \<and> exit_state env = Exited 0 \<and> io_err env = Some m
              \<and> \<not> timedOut env \<longrightarrow>
           last (to_stderr out) = task_prefix cmd @ ''error: '' @ m @ [CHR 0x0A])
     \<and> (\<forall>m. \<not> Success (runCommand cmd env)
              \<and> last (to_stderr out) = task_prefix cmd @ ''error: '' @ m @ [CHR 0x0A]
              \<and> CHR 0x0A \<notin> set (WorkingDir cmd) \<and> CHR 0x0A \<notin> set m \<longrightarrow>
           Lines (concat (to_stderr out))
             = map (\<lambda>l. task_prefix cmd @ l) (Lines perr) @ [task_prefix cmd @ ''error: '' @ m])
     \<and> (\<forall>name k. WorkingDir cmd = name @ replicate k (CHR ''/'') \<and> name \<noteq> []
              \<and> CHR ''/'' \<notin> set name \<longrightarrow> task_prefix cmd = ''['' @ name @ ''] '')
     \<and> (\<forall>dir name k. WorkingDir cmd = dir @ ''/'' @ name @ replicate k (CHR ''/'') \<and> name \<noteq> []
              \<and> CHR ''/'' \<notin> set name \<longrightarrow> task_prefix cmd = ''['' @ name @ ''] '')
     \<and> (WorkingDir cmd = [] \<longrightarrow> task_prefix cmd = ''[.] '')
     \<and> (\<forall>k. WorkingDir cmd = replicate (Suc k) (CHR ''/'') \<longrightarrow> task_prefix cmd = ''[/] '')"
proof -
  let ?p = "task_prefix cmd"
  let ?res = "runCommand cmd env"
  let ?hdr = "Logger_Printf ?p (''--> '' @ String cmd @ [CHR 0x0A])"
  let ?so = "?hdr # LogWriter_Flush ?p pout"
  have b1: "\<forall>name k. WorkingDir cmd = name @ replicate k (CHR ''/'') \<and> name \<noteq> []
              \<and> CHR ''/'' \<notin> set name \<longrightarrow> ?p = ''['' @ name @ ''] ''"
    using Base_element(2) by (auto simp: task_prefix_def)
  have b2: "\<forall>dir name k. WorkingDir cmd = dir @ ''/'' @ name @ replicate k (CHR ''/'') \<and> name \<noteq> []
              \<and> CHR ''/'' \<notin> set name \<longrightarrow> ?p = ''['' @ name @ ''] ''"
    using Base_element(1) by (auto simp: task_prefix_def)
  have b3: "WorkingDir cmd = [] \<longrightarrow> ?p = ''[.] ''"
    by (simp add: task_prefix_def Base_def)
  have b4: "\<forall>k. WorkingDir cmd = replicate (Suc k) (CHR ''/'') \<longrightarrow> ?p = ''[/] ''"
    using Base_slashes by (auto simp: task_prefix_def)
  have fl: "\<forall>w\<in>set (LogWriter_Flush ?p buf). take (length ?p) w = ?p" for buf
    by (auto simp: LogWriter_Flush_def Logger_Printf_prefix)
  have so: "CHR 0x0A \<notin> set (String cmd) \<longrightarrow>
      Lines (concat ?so) = (?p @ ''--> '' @ String cmd) # map (\<lambda>l. ?p @ l) (Lines pout)"
    using worker_stdout_lines by blast
  show ?thesis
  proof (cases "Success ?res")
    case True
    define out where "out = \<lparr>to_stdout = ?so, to_stderr = LogWriter_Flush ?p perr\<rparr>"
    have o: "to_stdout out = ?so" and r: "to_stderr out = LogWriter_Flush ?p perr"
      by (simp_all add: out_def)
    from True have ns: "start_err env = None" "Wait (exit_state env) (io_err env) = None"
      by (auto simp: runCommand_def after_wait_def split: option.splits)
    then have ns2: "exit_state env = Exited 0" "io_err env = None"
      by (auto simp: Wait_def split: if_splits)
    from True have j1: "worker_task cmd env pout perr = Some (out, ?res)"
      by (simp add: worker_task_def Let_def out_def)
    have j2: "\<forall>w\<in>set (to_stdout out) \<union> set (to_stderr out). take (length ?p) w = ?p"
      unfolding o r using fl by (auto simp: Logger_Printf_prefix)
    have j3: "CHR 0x0A \<notin> set (String cmd) \<longrightarrow>
           Lines (concat (to_stdout out))
             = (?p @ ''--> '' @ String cmd) # map (\<lambda>l. ?p @ l) (Lines pout)"
      unfolding o by (rule so)
    have j4: "CHR 0x0A \<notin> set (WorkingDir cmd) \<and> Success ?res \<longrightarrow>
           Lines (concat (to_stderr out)) = map (\<lambda>l. ?p @ l) (Lines perr)"
      unfolding r using worker_stderr_lines[of cmd "[]" perr] by simp
    have j5: "\<forall>m. start_err env = Some m \<longrightarrow>
           last (to_stderr out) = ?p @ ''error: '' @ m @ [CHR 0x0A]"
      using ns by simp
    have j6: "start_err env = None \<and> Wait (exit_state env) (io_err env) \<noteq> None \<and> timedOut env \<longrightarrow>
           last (to_stderr out) = ?p @ ''error: process timed out: '' @ String cmd @ [CHR 0x0A]"
      using ns by simp
    have j7: "start_err env = None \<and> exit_state env \<noteq> Exited 0 \<and> \<not> timedOut env \<longrightarrow>
           last (to_stderr out) = ?p @ ''error: exited with non-zero exit code'' @ [CHR 0x0A]"
      using ns2 by simp
    have j8: "\<forall>m. start_err env = None \<and> exit_state env = Exited 0 \<and> io_err env = Some m
              \<and> \<not> timedOut env \<longrightarrow>
           last (to_stderr out) = ?p @ ''error: '' @ m @ [CHR 0x0A]"
      using ns2 by simp
    have j9: "\<forall>m. \<not> Success ?res
              \<and> last (to_stderr out) = ?p @ ''error: '' @ m @ [CHR 0x0A]
              \<and> CHR 0x0A \<notin> set (WorkingDir cmd) \<and> CHR 0x0A \<notin> set m \<longrightarrow>
           Lines (concat (to_stderr out))
             = map (\<lambda>l. ?p @ l) (Lines perr) @ [?p @ ''error: '' @ m]"
      using True by simp
    show ?thesis
      by (rule exI[of _ out], intro conjI) (fact j1 j2 j3 j4 j5 j6 j7 j8 j9 b1 b2 b3 b4)+
  next
    case False
    from runCommand_failed_Error[OF False] obtain e where e: "Error ?res = Some e" by blast
    define out where "out = \<lparr>to_stdout = ?so,
        to_stderr = LogWriter_Flush ?p perr
                      @ [Logger_Printf ?p (''error: '' @ Error_msg e @ [CHR 0x0A])]\<rparr>"
    have o: "to_stdout out = ?so"
      and r: "to_stderr out = LogWriter_Flush ?p perr
                      @ [Logger_Printf ?p (''error: '' @ Error_msg e @ [CHR 0x0A])]"
      by (simp_all add: out_def)
    have la: "last (to_stderr out) = ?p @ ''error: '' @ Error_msg e @ [CHR 0x0A]"
      unfolding r by (simp add: Logger_Printf_def)
    from False e have j1: "worker_task cmd env pout perr = Some (out, ?res)"
      by (simp add: worker_task_def Let_def out_def)
    have j2: "\<forall>w\<in>set (to_stdout out) \<union> set (to_stderr out). take (length ?p) w = ?p"
      unfolding o r using fl by (auto simp: Logger_Printf_prefix)
    have j3: "CHR 0x0A \<notin> set (String cmd) \<longrightarrow>
           Lines (concat (to_stdout out))
             = (?p @ ''--> '' @ String cmd) # map (\<lambda>l. ?p @ l) (Lines pout)"
      unfolding o by (rule so)
    have j4: "CHR 0x0A \<notin> set (WorkingDir cmd) \<and> Success ?res \<longrightarrow>
           Lines (concat (to_stderr out)) = map (\<lambda>l. ?p @ l) (Lines perr)"
      using False by simp
    have c1: "\<forall>m. start_err env = Some m \<longrightarrow> Error_msg e = m"
      using e by (auto simp: runCommand_def)
    have c2: "start_err env = None \<and> Wait (exit_state env) (io_err env) \<noteq> None \<and> timedOut env
        \<longrightarrow> Error_msg e = ''process timed out: '' @ String cmd"
      using e by (auto simp: runCommand_def after_wait_def)
    have c3: "start_err env = None \<and> exit_state env \<noteq> Exited 0 \<and> \<not> timedOut env
        \<longrightarrow> Error_msg e = ''exited with non-zero exit code''"
      using e by (auto simp: runCommand_def after_wait_def Wait_def)
    have c4: "\<forall>m. start_err env = None \<and> exit_state env = Exited 0 \<and> io_err env = Some m
        \<and> \<not> timedOut env \<longrightarrow> Error_msg e = m"
      using e by (auto simp: runCommand_def after_wait_def Wait_def)
    have j5: "\<forall>m. start_err env = Some m \<longrightarrow>
           last (to_stderr out) = ?p @ ''error: '' @ m @ [CHR 0x0A]"
      using c1 la by simp
    have j6: "start_err env = None \<and> Wait (exit_state env) (io_err env) \<noteq> None \<and> timedOut env \<longrightarrow>
           last (to_stderr out) = ?p @ ''error: process timed out: '' @ String cmd @ [CHR 0x0A]"
      using c2 la by simp
    have j7: "start_err env = None \<and> exit_state env \<noteq> Exited 0 \<and> \<not> timedOut env \<longrightarrow>
           last (to_stderr out) = ?p @ ''error: exited with non-zero exit code'' @ [CHR 0x0A]"
      using c3 la by simp
    have j8: "\<forall>m. start_err env = None \<and> exit_state env = Exited 0 \<and> io_err env = Some m
              \<and> \<not> timedOut env \<longrightarrow>
           last (to_stderr out) = ?p @ ''error: '' @ m @ [CHR 0x0A]"
      using c4 la by simp
    have j9: "\<forall>m. \<not> Success ?res
              \<and> last (to_stderr out) = ?p @ ''error: '' @ m @ [CHR 0x0A]
              \<and> CHR 0x0A \<notin> set (WorkingDir cmd) \<and> CHR 0x0A \<notin> set m \<longrightarrow>
           Lines (concat (to_stderr out))
             = map (\<lambda>l. ?p @ l) (Lines perr) @ [?p @ ''error: '' @ m]"
    proof (intro allI impI, elim conjE)
      fix m
      assume l: "last (to_stderr out) = ?p @ ''error: '' @ m @ [CHR 0x0A]"
        and wd: "CHR 0x0A \<notin> set (WorkingDir cmd)" and nm: "CHR 0x0A \<notin> set m"
      from l la have em: "Error_msg e = m" by simp
      from nm have "\<forall>x\<in>set [''error: '' @ m]. CHR 0x0A \<notin> set x" by simp
      from worker_stderr_lines[OF wd this, of perr]
      show "Lines (concat (to_stderr out))
              = map (\<lambda>l. ?p @ l) (Lines perr) @ [?p @ ''error: '' @ m]"
        unfolding r em by simp
    qed
    show ?thesis
      by (rule exI[of _ out], intro conjI) (fact j1 j2 j3 j4 j5 j6 j7 j8 j9 b1 b2 b3 b4)+
  qed
qed

theorem worker_lines_labelled_witness:
  "String cmd_sub = [CHR 0x27] @ ''git fetch'' @ [CHR 0x27] @ '' in '' @ [CHR 0x27] @ ''work/repo'' @ [CHR 0x27]
 \<and> (\<exists>out. worker_task cmd_sub env_fail (''hello'' @ [CHR 0x0A]) (''warn'' @ [CHR 0x0A])
             = Some (out, runCommand cmd_sub env_fail)
        \<and> Lines (concat (to_stdout out)) = [''[repo] --> '' @ String cmd_sub, ''[repo] hello'']
        \<and> Lines (concat (to_stderr out))
            = [''[repo] warn'', ''[repo] error: exited with non-zero exit code''])
 \<and> (\<exists>out. worker_task cmd_a env_nospawn [] [] = Some (out, runCommand cmd_a env_nospawn)
        \<and> Lines (concat (to_stderr out)) = [''[a] error: exec: git: executable file not found''])
 \<and> (\<exists>out. worker_task cmd_a env_ok (''ok'' @ [CHR 0x0A]) [] = Some (out, runCommand cmd_a env_ok)
        \<and> Lines (concat (to_stdout out)) = [''[a] --> '' @ String cmd_a, ''[a] ok'']
        \<and> Lines (concat (to_stderr out)) = [])
 \<and> (\<exists>out. worker_task cmd_a env_timeout [] [] = Some (out, runCommand cmd_a env_timeout)
        \<and> last (to_stderr out) = ''[a] error: process timed out: '' @ String cmd_a @ [CHR 0x0A])
 \<and> (\<exists>out. worker_task cmd_a env_io [] [] = Some (out, runCommand cmd_a env_io)
        \<and> last (to_stderr out) = ''[a] error: write: broken pipe'' @ [CHR 0x0A])
 \<and> task_prefix cmd_empty = ''[.] '' \<and> task_prefix cmd_root = ''[/] ''"
proof -
  have s1: "String cmd_sub = [CHR 0x27] @ ''git fetch'' @ [CHR 0x27] @ '' in '' @ [CHR 0x27] @ ''work/repo'' @ [CHR 0x27]"
    by (simp add: String_def cmd_sub_def)
  have n1: "CHR 0x0A \<notin> set (String cmd_sub)" "CHR 0x0A \<notin> set (WorkingDir cmd_sub)"
    by (simp_all add: String_def cmd_sub_def)
  have na: "CHR 0x0A \<notin> set (String cmd_a)" "CHR 0x0A \<notin> set (WorkingDir cmd_a)"
    by (simp_all add: String_def cmd_a_def)
  have l1: "Lines (''hello'' @ [CHR 0x0A]) = [''hello'']" "Lines (''warn'' @ [CHR 0x0A]) = [''warn'']"
    "Lines (''ok'' @ [CHR 0x0A]) = [''ok'']" "Lines [] = []"
    by (simp_all add: Lines_def Split.simps)
  have w1: "WorkingDir cmd_sub = ''work'' @ ''/'' @ ''repo'' @ replicate 0 (CHR ''/'')"
    by (simp add: cmd_sub_def)
  have wa: "WorkingDir cmd_a = ''a'' @ replicate 0 (CHR ''/'')" by (simp add: cmd_a_def)
  have f1: "\<not> Success (runCommand cmd_sub env_fail)"
    by (simp add: runCommand_def after_wait_def Wait_def env_fail_def)
  have f2: "\<not> Success (runCommand cmd_a env_nospawn)"
    by (simp add: runCommand_def env_nospawn_def)
  have f3: "Success (runCommand cmd_a env_ok)"
    by (simp add: runCommand_def after_wait_def Wait_def env_ok_def)
  \<comment> \<open>a failing task in a subdirectory\<close>
  from worker_lines_labelled[of cmd_sub env_fail "''hello'' @ [CHR 0x0A]" "''warn'' @ [CHR 0x0A]"]
  obtain o1 where a1: "worker_task cmd_sub env_fail (''hello'' @ [CHR 0x0A]) (''warn'' @ [CHR 0x0A])
             = Some (o1, runCommand cmd_sub env_fail)"
    and a2: "CHR 0x0A \<notin> set (String cmd_sub) \<longrightarrow>
           Lines (concat (to_stdout o1))
             = (task_prefix cmd_sub @ ''--> '' @ String cmd_sub)
               # map (\<lambda>l. task_prefix cmd_sub @ l) (Lines (''hello'' @ [CHR 0x0A]))"
    and a3: "start_err env_fail = None \<and> exit_state env_fail \<noteq> Exited 0 \<and> \<not> timedOut env_fail \<longrightarrow>
           last (to_stderr o1)
             = task_prefix cmd_sub @ ''error: exited with non-zero exit code'' @ [CHR 0x0A]"
    and a4: "\<forall>m. \<not> Success (runCommand cmd_sub env_fail)
              \<and> last (to_stderr o1) = task_prefix cmd_sub @ ''error: '' @ m @ [CHR 0x0A]
              \<and> CHR 0x0A \<notin> set (WorkingDir cmd_sub) \<and> CHR 0x0A \<notin> set m \<longrightarrow>
           Lines (concat (to_stderr o1))
             = map (\<lambda>l. task_prefix cmd_sub @ l) (Lines (''warn'' @ [CHR 0x0A]))
               @ [task_prefix cmd_sub @ ''error: '' @ m]"
    and a5: "\<forall>dir name k. WorkingDir cmd_sub = dir @ ''/'' @ name @ replicate k (CHR ''/'') \<and> name \<noteq> []
              \<and> CHR ''/'' \<notin> set name \<longrightarrow> task_prefix cmd_sub = ''['' @ name @ ''] ''"
    by (elim exE conjE)
  from a5[rule_format, of "''work''" "''repo''" 0] w1 have p1: "task_prefix cmd_sub = ''[repo] ''"
    by simp
  from a2 n1 l1 p1 have r1: "Lines (concat (to_stdout o1)) = [''[repo] --> '' @ String cmd_sub, ''[repo] hello'']"
    by simp
  from a3 have e1: "last (to_stderr o1) = task_prefix cmd_sub @ ''error: '' @ ''exited with non-zero exit code'' @ [CHR 0x0A]"
    by (simp add: env_fail_def)
  from a4[rule_format, of "''exited with non-zero exit code''"] f1 e1 n1
  have "Lines (concat (to_stderr o1))
             = map (\<lambda>l. task_prefix cmd_sub @ l) (Lines (''warn'' @ [CHR 0x0A]))
               @ [task_prefix cmd_sub @ ''error: '' @ ''exited with non-zero exit code'']"
    by simp
  with l1 p1 have r2: "Lines (concat (to_stderr o1))
            = [''[repo] warn'', ''[repo] error: exited with non-zero exit code'']" by simp
  \<comment> \<open>an executable that cannot be started\<close>
  from worker_lines_labelled[of cmd_a env_nospawn "[]" "[]"]
  obtain o2 where b1: "worker_task cmd_a env_nospawn [] [] = Some (o2, runCommand cmd_a env_nospawn)"
    and b3: "\<forall>m. start_err env_nospawn = Some m \<longrightarrow>
           last (to_stderr o2) = task_prefix cmd_a @ ''error: '' @ m @ [CHR 0x0A]"
    and b4: "\<forall>m. \<not> Success (runCommand cmd_a env_nospawn)
              \<and> last (to_stderr o2) = task_prefix cmd_a @ ''error: '' @ m @ [CHR 0x0A]
              \<and> CHR 0x0A \<notin> set (WorkingDir cmd_a) \<and> CHR 0x0A \<notin> set m \<longrightarrow>
           Lines (concat (to_stderr o2))
             = map (\<lambda>l. task_prefix cmd_a @ l) (Lines []) @ [task_prefix cmd_a @ ''error: '' @ m]"
    and b5: "\<forall>name k. WorkingDir cmd_a = name @ replicate k (CHR ''/'') \<and> name \<noteq> []
              \<and> CHR ''/'' \<notin> set name \<longrightarrow> task_prefix cmd_a = ''['' @ name @ ''] ''"
    by (elim exE conjE)
  from b5[rule_format, of "''a''" 0] wa have pa: "task_prefix cmd_a = ''[a] ''" by simp
  from b3[rule_format, of "''exec: git: executable file not found''"]
  have e2: "last (to_stderr o2) = task_prefix cmd_a @ ''error: '' @ ''exec: git: executable file not found'' @ [CHR 0x0A]"
    by (simp add: env_nospawn_def)
  from b4[rule_format, of "''exec: git: executable file not found''"] f2 e2 na
  have "Lines (concat (to_stderr o2))
             = map (\<lambda>l. task_prefix cmd_a @ l) (Lines [])
               @ [task_prefix cmd_a @ ''error: '' @ ''exec: git: executable file not found'']"
    by simp
  with l1 pa have r3: "Lines (concat (to_stderr o2)) = [''[a] error: exec: git: executable file not found'']"
    by simp
  \<comment> \<open>a successful task\<close>
  from worker_lines_labelled[of cmd_a env_ok "''ok'' @ [CHR 0x0A]" "[]"]
  obtain o3 where c1: "worker_task cmd_a env_ok (''ok'' @ [CHR 0x0A]) [] = Some (o3, runCommand cmd_a env_ok)"
    and c2: "CHR 0x0A \<notin> set (String cmd_a) \<longrightarrow>
           Lines (concat (to_stdout o3))
             = (task_prefix cmd_a @ ''--> '' @ String cmd_a)
               # map (\<lambda>l. task_prefix cmd_a @ l) (Lines (''ok'' @ [CHR 0x0A]))"
    and c3: "CHR 0x0A \<notin> set (WorkingDir cmd_a) \<and> Success (runCommand cmd_a env_ok) \<longrightarrow>
           Lines (concat (to_stderr o3)) = map (\<lambda>l. task_prefix cmd_a @ l) (Lines [])"
    by (elim exE conjE)
  from c2 na l1 pa have r4: "Lines (concat (to_stdout o3)) = [''[a] --> '' @ String cmd_a, ''[a] ok'']"
    by simp
  from c3 na f3 l1 have r5: "Lines (concat (to_stderr o3)) = []" by simp
  \<comment> \<open>a task reported as timed out, and one whose output could not be copied\<close>
  from worker_lines_labelled[of cmd_a env_timeout "[]" "[]"]
  obtain o4 where d1: "worker_task cmd_a env_timeout [] [] = Some (o4, runCommand cmd_a env_timeout)"
    and d2: "start_err env_timeout = None
        \<and> Wait (exit_state env_timeout) (io_err env_timeout) \<noteq> None \<and> timedOut env_timeout \<longrightarrow>
           last (to_stderr o4)
             = task_prefix cmd_a @ ''error: process timed out: '' @ String cmd_a @ [CHR 0x0A]"
    by (elim exE conjE)
  from d2 pa have r6: "last (to_stderr o4) = ''[a] error: process timed out: '' @ String cmd_a @ [CHR 0x0A]"
    by (simp add: env_timeout_def Wait_def)
  from worker_lines_labelled[of cmd_a env_io "[]" "[]"]
  obtain o5 where g1: "worker_task cmd_a env_io [] [] = Some (o5, runCommand cmd_a env_io)"
    and g2: "\<forall>m. start_err env_io = None \<and> exit_state env_io = Exited 0 \<and> io_err env_io = Some m
              \<and> \<not> timedOut env_io \<longrightarrow>
           last (to_stderr o5) = task_prefix cmd_a @ ''error: '' @ m @ [CHR 0x0A]"
    by (elim exE conjE)
  from g2[rule_format, of "''write: broken pipe''"] pa
  have r7: "last (to_stderr o5) = ''[a] error: write: broken pipe'' @ [CHR 0x0A]"
    by (simp add: env_io_def)
  \<comment> \<open>the prefix for an empty working directory and for the root\<close>
  from worker_lines_labelled[of cmd_empty env_ok "[]" "[]"]
  have r8: "task_prefix cmd_empty = ''[.] ''" by (auto simp: cmd_empty_def)
  from worker_lines_labelled[of cmd_root env_ok "[]" "[]"]
  have "\<forall>k. WorkingDir cmd_root = replicate (Suc k) (CHR ''/'') \<longrightarrow> task_prefix cmd_root = ''[/] ''"
    by (elim exE conjE)
  from this[rule_format, of 0] have r9: "task_prefix cmd_root = ''[/] ''" by (simp add: cmd_root_def)
  from s1 a1 r1 r2 have t1: "String cmd_sub = [CHR 0x27] @ ''git fetch'' @ [CHR 0x27] @ '' in '' @ [CHR 0x27] @ ''work/repo'' @ [CHR 0x27]
     \<and> (\<exists>out. worker_task cmd_sub env_fail (''hello'' @ [CHR 0x0A]) (''warn'' @ [CHR 0x0A])
             = Some (out, runCommand cmd_sub env_fail)
        \<and> Lines (concat (to_stdout out)) = [''[repo] --> '' @ String cmd_sub, ''[repo] hello'']
        \<and> Lines (concat (to_stderr out))
            = [''[repo] warn'', ''[repo] error: exited with non-zero exit code''])" by blast
  from b1 r3 have t2: "\<exists>out. worker_task cmd_a env_nospawn [] [] = Some (out, runCommand cmd_a env_nospawn)
        \<and> Lines (concat (to_stderr out)) = [''[a] error: exec: git: executable file not found'']"
    by blast
  from c1 r4 r5 have t3: "\<exists>out. worker_task cmd_a env_ok (''ok'' @ [CHR 0x0A]) [] = Some (out, runCommand cmd_a env_ok)
        \<and> Lines (concat (to_stdout out)) = [''[a] --> '' @ String cmd_a, ''[a] ok'']
        \<and> Lines (concat (to_stderr out)) = []" by blast
  from d1 r6 have t4: "\<exists>out. worker_task cmd_a env_timeout [] [] = Some (out, runCommand cmd_a env_timeout)
        \<and> last (to_stderr out) = ''[a] error: process timed out: '' @ String cmd_a @ [CHR 0x0A]"
    by blast
  from g1 r7 have t5: "\<exists>out. worker_task cmd_a env_io [] [] = Some (out, runCommand cmd_a env_io)
        \<and> last (to_stderr out) = ''[a] error: write: broken pipe'' @ [CHR 0x0A]" by blast
  from t1 t2 t3 t4 t5 r8 r9 show ?thesis by (intro conjI) blast+
qed

text \<open>
  The claim as stated, every output line is prefixed, fails: a logger puts the prefix once
  in front of each message, and line 128 prints the description of the command in one
  message. For \<^verbatim>\<open>git commit -m\<close> with a message of two lines, the second line of the header
  is written without the prefix.
\<close>

theorem worker_line_unlabelled_counterexample:
  "CHR 0x0A \<in> set (String cmd_nl)
 \<and> worker_task cmd_nl env_ok [] []
     = Some (\<lparr>to_stdout = [''[repo] --> '' @ String cmd_nl @ [CHR 0x0A]], to_stderr = []\<rparr>,
             \<lparr>Success = True, Error = None, Command = cmd_nl\<rparr>)
 \<and> task_prefix cmd_nl = ''[repo] ''
 \<and> Lines (''[repo] --> '' @ String cmd_nl @ [CHR 0x0A])
     = [''[repo] --> '' @ [CHR 0x27] @ ''git commit -m a'',
        ''b'' @ [CHR 0x27] @ '' in '' @ [CHR 0x27] @ ''repo'' @ [CHR 0x27]]
 \<and> take (length ''[repo] '') (''b'' @ [CHR 0x27] @ '' in '' @ [CHR 0x27] @ ''repo'' @ [CHR 0x27])
     \<noteq> ''[repo] ''"
proof -
  have p: "task_prefix cmd_nl = ''[repo] ''"
    by (simp add: task_prefix_def Base_def cmd_nl_def)
  have s: "String cmd_nl = [CHR 0x27] @ ''git commit -m a'' @ [CHR 0x0A] @ ''b'' @ [CHR 0x27]
              @ '' in '' @ [CHR 0x27] @ ''repo'' @ [CHR 0x27]"
    by (simp add: String_def cmd_nl_def)
  have r: "runCommand cmd_nl env_ok = \<lparr>Success = True, Error = None, Command = cmd_nl\<rparr>"
    by (simp add: runCommand_def after_wait_def Wait_def env_ok_def)
  have w: "worker_task cmd_nl env_ok [] []
     = Some (\<lparr>to_stdout = [''[repo] --> '' @ String cmd_nl @ [CHR 0x0A]], to_stderr = []\<rparr>,
             \<lparr>Success = True, Error = None, Command = cmd_nl\<rparr>)"
    by (simp add: worker_task_def r p Logger_Printf_def LogWriter_Flush_def Lines_def Split.simps)
  have l: "Lines (''[repo] --> '' @ String cmd_nl @ [CHR 0x0A])
     = [''[repo] --> '' @ [CHR 0x27] @ ''git commit -m a'',
        ''b'' @ [CHR 0x27] @ '' in '' @ [CHR 0x27] @ ''repo'' @ [CHR 0x27]]"
    unfolding s by (simp add: Lines_def Split.simps)
  from p s w l show ?thesis by simp
qed

section \<open>Properties of the batch\<close>

lemma concat_map_update:
  "k < length ws \<Longrightarrow>
     mset (concat (map f (ws[k := w]))) + mset (f (ws ! k)) = mset (concat (map f ws)) + mset (f w)"
proof (induction ws arbitrary: k)
  case Nil
  then show ?case by simp
next
  case (Cons a ws)
  show ?case
  proof (cases k)
    case 0
    then show ?thesis by simp
  next
    case (Suc j)
    with Cons.prems have "j < length ws" by simp
    from Cons.IH[OF this] Suc show ?thesis by simp
  qed
qed

lemma inflight_update:
  "k < length ws \<Longrightarrow>
     mset (inflight (ws[k := w])) + mset (held (ws ! k)) = mset (inflight ws) + mset (held w)"
  unfolding inflight_def by (rule concat_map_update)

lemma inflight_replicate_Idle: "inflight (replicate m Idle) = []"
  by (induction m) (simp_all add: inflight_def)

lemma Stopped_update:
  "Stopped \<in> set (ws[k := w]) \<Longrightarrow> w \<noteq> Stopped \<Longrightarrow> Stopped \<in> set ws"
  by (metis in_set_conv_nth length_list_update nth_list_update_eq nth_list_update_neq)

lemma step_workers_length: "step t s s' \<Longrightarrow> length (workers s') = length (workers s)"
  by (erule step.cases) simp_all

lemma step_accounted:
  assumes "step t s s'"
  shows "accounted s' = accounted s"
  using assms
proof (cases rule: step.cases)
  case (publish cmd rest k)
  with inflight_update[of k "workers s" "Running cmd"]
  show ?thesis by (simp add: accounted_def)
next
  case close
  then show ?thesis by (simp add: accounted_def)
next
  case (stop k)
  with inflight_update[of k "workers s" "Stopped"]
  show ?thesis by (simp add: accounted_def)
next
  case (run k cmd env)
  with inflight_update[of k "workers s" "Sending (runCommand cmd env)"]
  show ?thesis by (simp add: accounted_def runCommand_Command)
next
  case (collect k result)
  with inflight_update[of k "workers s" "Idle"]
  have "add_mset (CommandResult.Command result) (mset (inflight ((workers s)[k := Idle])))
          = mset (inflight (workers s))" by simp
  with collect show ?thesis by (simp add: accounted_def flip: \<open>add_mset _ _ = _\<close>)
next
  case exit
  then show ?thesis by (simp add: accounted_def)
qed

lemma step_counters:
  assumes "step t s s'" and "loop_i s = length (received s)"
    and "failedCms s = filter (\<lambda>r. \<not> Success r) (received s)"
  shows "loop_i s' = length (received s')
       \<and> failedCms s' = filter (\<lambda>r. \<not> Success r) (received s')"
  using assms by (cases rule: step.cases) simp_all

lemma step_closed:
  assumes "step t s s'" and "closed s \<longrightarrow> queue s = []"
    and "Stopped \<in> set (workers s) \<longrightarrow> closed s"
  shows "(closed s' \<longrightarrow> queue s' = []) \<and> (Stopped \<in> set (workers s') \<longrightarrow> closed s')"
  using assms by (cases rule: step.cases) (auto dest: Stopped_update)

lemma step_exited:
  assumes "step t s s'"
    and "exited s \<noteq> None \<longrightarrow>
           loop_i s = t \<and> exited s = Some (exit_status (failedCms s))
           \<and> printed s = report (failedCms s)"
    and "loop_i s \<le> t"
  shows "exited s' \<noteq> None \<longrightarrow>
           loop_i s' = t \<and> exited s' = Some (exit_status (failedCms s'))
           \<and> printed s' = report (failedCms s')"
  using assms by (cases rule: step.cases) auto

lemma step_printed:
  assumes "step t s s'" and "exited s = None \<longrightarrow> printed s = []"
  shows "exited s' = None \<longrightarrow> printed s' = []"
  using assms by (cases rule: step.cases) auto

lemma size_accounted:
  "size (accounted s) = length (received s) + length (inflight (workers s)) + length (queue s)"
  by (simp add: accounted_def)

lemma inv_init: "inv n cmds (init n cmds)"
  by (simp add: inv_def init_def accounted_def inflight_replicate_Idle)

lemma inv_loop_i_le:
  assumes "inv n cmds s"
  shows "loop_i s + length (inflight (workers s)) + length (queue s) = length cmds"
proof -
  from assms[unfolded inv_def] have "accounted s = mset cmds" and "loop_i s = length (received s)"
    by blast+
  with size_accounted[of s] show ?thesis by (simp flip: size_mset)
qed

lemma inv_preserved:
  assumes I: "inv n cmds s" and st: "step (length cmds) s s'"
  shows "inv n cmds s'"
proof -
  from I[unfolded inv_def] have len: "length (workers s) = nat n" and acc: "accounted s = mset cmds"
    and cnt: "loop_i s = length (received s)"
    and fl: "failedCms s = filter (\<lambda>r. \<not> Success r) (received s)"
    and cl: "closed s \<longrightarrow> queue s = []" and sp: "Stopped \<in> set (workers s) \<longrightarrow> closed s"
    and ex: "exited s \<noteq> None \<longrightarrow>
               loop_i s = length cmds \<and> exited s = Some (exit_status (failedCms s))
               \<and> printed s = report (failedCms s)"
    and pr: "exited s = None \<longrightarrow> printed s = []"
    by blast+
  from inv_loop_i_le[OF I] have le: "loop_i s \<le> length cmds" by simp
  have "length (workers s') = nat n"
    using step_workers_length[OF st] len by simp
  moreover have "accounted s' = mset cmds"
    using step_accounted[OF st] acc by simp
  moreover note step_counters[OF st cnt fl] step_closed[OF st cl sp] step_exited[OF st ex le]
    step_printed[OF st pr]
  ultimately show ?thesis unfolding inv_def by blast
qed

lemma steps_inv:
  assumes "(step (length cmds))\<^sup>*\<^sup>* s s'" and "inv n cmds s"
  shows "inv n cmds s'"
  using assms by (induction rule: rtranclp_induct) (simp_all add: inv_preserved)

lemma reachable_inv: "reachable n cmds s \<Longrightarrow> inv n cmds s"
  unfolding reachable_def by (erule steps_inv) (rule inv_init)

lemma held_inflight: "k < length ws \<Longrightarrow> held (ws ! k) \<noteq> [] \<Longrightarrow> inflight ws \<noteq> []"
  by (auto simp: inflight_def)

lemma no_held_inflight: "\<forall>w\<in>set ws. held w = [] \<Longrightarrow> inflight ws = []"
  by (simp add: inflight_def)

lemma progress:
  assumes I: "inv n cmds s" and ex: "exited s = None" and n: "1 \<le> n \<or> cmds = []"
  shows "\<exists>s'. step (length cmds) s s'"
proof (cases "\<forall>w\<in>set (workers s). held w = []")
  case False
  then obtain k where k: "k < length (workers s)" and h: "held (workers s ! k) \<noteq> []"
    by (auto simp: in_set_conv_nth)
  show ?thesis
  proof (cases "workers s ! k")
    case (Running cmd)
    from step.run[OF ex k this] show ?thesis by blast
  next
    case (Sending result)
    from held_inflight[OF k h] have "0 < length (inflight (workers s))" by simp
    with inv_loop_i_le[OF I] have "loop_i s < length cmds" by linarith
    from step.collect[OF ex this k Sending] show ?thesis by blast
  qed (use h in simp_all)
next
  case True
  then have nofl: "inflight (workers s) = []" by (rule no_held_inflight)
  show ?thesis
  proof (cases "queue s")
    case Nil
    with nofl inv_loop_i_le[OF I] have "\<not> loop_i s < length cmds" by simp
    from step.exit[OF ex this] show ?thesis by blast
  next
    case (Cons cmd rest)
    with I have ns: "Stopped \<notin> set (workers s)" by (auto simp: inv_def)
    from Cons inv_loop_i_le[OF I] have "cmds \<noteq> []" by auto
    with n I have k: "0 < length (workers s)" by (simp add: inv_def)
    then have "workers s ! 0 \<in> set (workers s)" by simp
    with True ns have "workers s ! 0 = Idle" by (cases "workers s ! 0") auto
    from step.publish[OF ex Cons k this] show ?thesis by blast
  qed
qed

lemma weight_update:
  "k < length ws \<Longrightarrow>
     sum_list (map weight (ws[k := w])) + weight (ws ! k) = sum_list (map weight ws) + weight w"
proof (induction ws arbitrary: k)
  case Nil
  then show ?case by simp
next
  case (Cons a ws)
  show ?case
  proof (cases k)
    case 0
    then show ?thesis by simp
  next
    case (Suc j)
    with Cons.prems have "j < length ws" by simp
    from Cons.IH[OF this] Suc show ?thesis by simp
  qed
qed

lemma step_remaining:
  assumes "step t s s'"
  shows "remaining s' < remaining s"
  using assms
proof (cases rule: step.cases)
  case (publish cmd rest k)
  with weight_update[of k "workers s" "Running cmd"] show ?thesis by (simp add: remaining_def)
next
  case close
  then show ?thesis by (simp add: remaining_def)
next
  case (stop k)
  with weight_update[of k "workers s" "Stopped"] show ?thesis by (simp add: remaining_def)
next
  case (run k cmd env)
  with weight_update[of k "workers s" "Sending (runCommand cmd env)"]
  show ?thesis by (simp add: remaining_def)
next
  case (collect k result)
  with weight_update[of k "workers s" "Idle"] show ?thesis by (simp add: remaining_def)
next
  case exit
  then show ?thesis by (simp add: remaining_def)
qed

lemma exit_reachable:
  assumes "inv n cmds s" and "1 \<le> n \<or> cmds = []"
  shows "\<exists>s'. (step (length cmds))\<^sup>*\<^sup>* s s' \<and> exited s' \<noteq> None"
  using assms(1)
proof (induction "remaining s" arbitrary: s rule: less_induct)
  case less
  show ?case
  proof (cases "exited s")
    case (Some a)
    then show ?thesis by blast
  next
    case None
    from progress[OF less.prems None assms(2)] obtain s1 where s1: "step (length cmds) s s1" by blast
    from less.hyps[OF step_remaining[OF s1] inv_preserved[OF less.prems s1]]
    obtain s' where "(step (length cmds))\<^sup>*\<^sup>* s1 s'" "exited s' \<noteq> None" by blast
    with s1 show ?thesis by (meson converse_rtranclp_into_rtranclp)
  qed
qed

lemma inv_exited:
  assumes I: "inv n cmds s" and ex: "exited s = Some code"
  shows "code = int (length (filter (\<lambda>r. \<not> Success r) (received s)))"
    and "length (received s) = length cmds"
    and "mset (map CommandResult.Command (received s)) = mset cmds"
    and "inflight (workers s) = []" and "queue s = []"
    and "printed s = report (filter (\<lambda>r. \<not> Success r) (received s))"
proof -
  from I[unfolded inv_def] ex have acc: "accounted s = mset cmds"
    and cnt: "loop_i s = length (received s)"
    and fl: "failedCms s = filter (\<lambda>r. \<not> Success r) (received s)"
    and e: "loop_i s = length cmds" "exited s = Some (exit_status (failedCms s))"
           "printed s = report (failedCms s)"
    by auto
  from e(2) ex fl show "code = int (length (filter (\<lambda>r. \<not> Success r) (received s)))"
    by (simp add: exit_status_def)
  from cnt e(1) show "length (received s) = length cmds" by simp
  from inv_loop_i_le[OF I] e(1) show "inflight (workers s) = []" and "queue s = []" by simp_all
  with acc show "mset (map CommandResult.Command (received s)) = mset cmds"
    by (simp add: accounted_def)
  from e(3) fl show "printed s = report (filter (\<lambda>r. \<not> Success r) (received s))" by simp
qed

text \<open>The example states are states of a batch of two commands with two workers.\<close>

lemma res_a_eq: "runCommand cmd_a env_ok = res_a"
  by (simp add: runCommand_def after_wait_def Wait_def env_ok_def res_a_def)

lemma res_b_eq: "runCommand cmd_b env_nospawn = res_b"
  by (simp add: runCommand_def env_nospawn_def res_b_def)

lemma both_running_reachable: "reachable 2 [cmd_a, cmd_b] both_running"
proof -
  let ?s1 = "\<lparr>queue = [cmd_b], closed = False, workers = [Running cmd_a, Idle],
              loop_i = 0, received = [], failedCms = [], printed = [], exited = None\<rparr>"
  have len: "length [cmd_a, cmd_b] = 2" by simp
  have i: "init 2 [cmd_a, cmd_b] = \<lparr>queue = [cmd_a, cmd_b], closed = False, workers = [Idle, Idle],
              loop_i = 0, received = [], failedCms = [], printed = [], exited = None\<rparr>"
    by (simp add: init_def numeral_2_eq_2)
  have "step 2 (init 2 [cmd_a, cmd_b]) ?s1"
    using step.publish[of "init 2 [cmd_a, cmd_b]" cmd_a "[cmd_b]" 0 2] by (simp add: i)
  then have "(step 2)\<^sup>*\<^sup>* (init 2 [cmd_a, cmd_b]) ?s1" by (rule r_into_rtranclp)
  moreover have "step 2 ?s1 both_running"
    using step.publish[of ?s1 cmd_b "[]" 1 2] by (simp add: both_running_def)
  ultimately have "(step 2)\<^sup>*\<^sup>* (init 2 [cmd_a, cmd_b]) both_running"
    by (rule rtranclp.rtrancl_into_rtrancl)
  then show ?thesis unfolding reachable_def len .
qed

lemma batch_done_reachable: "reachable 2 [cmd_a, cmd_b] batch_done"
proof -
  let ?s3 = "\<lparr>queue = [], closed = False, workers = [Running cmd_a, Sending res_b],
              loop_i = 0, received = [], failedCms = [], printed = [], exited = None\<rparr>"
  let ?s4 = "\<lparr>queue = [], closed = False, workers = [Sending res_a, Sending res_b],
              loop_i = 0, received = [], failedCms = [], printed = [], exited = None\<rparr>"
  let ?s5 = "\<lparr>queue = [], closed = False, workers = [Sending res_a, Idle],
              loop_i = 1, received = [res_b], failedCms = [res_b], printed = [], exited = None\<rparr>"
  let ?s6 = "\<lparr>queue = [], closed = False, workers = [Idle, Idle],
              loop_i = 2, received = [res_b, res_a], failedCms = [res_b], printed = [],
              exited = None\<rparr>"
  have len: "length [cmd_a, cmd_b] = 2" by simp
  from both_running_reachable have "(step 2)\<^sup>*\<^sup>* (init 2 [cmd_a, cmd_b]) both_running"
    unfolding reachable_def len .
  moreover have "step 2 both_running ?s3"
    using step.run[of both_running 1 cmd_b 2 env_nospawn] by (simp add: both_running_def res_b_eq)
  ultimately have "(step 2)\<^sup>*\<^sup>* (init 2 [cmd_a, cmd_b]) ?s3"
    by (rule rtranclp.rtrancl_into_rtrancl)
  moreover have "step 2 ?s3 ?s4"
    using step.run[of ?s3 0 cmd_a 2 env_ok] by (simp add: res_a_eq)
  ultimately have "(step 2)\<^sup>*\<^sup>* (init 2 [cmd_a, cmd_b]) ?s4"
    by (rule rtranclp.rtrancl_into_rtrancl)
  moreover have "step 2 ?s4 ?s5"
    using step.collect[of ?s4 2 1 res_b] by (simp add: res_b_def)
  ultimately have "(step 2)\<^sup>*\<^sup>* (init 2 [cmd_a, cmd_b]) ?s5"
    by (rule rtranclp.rtrancl_into_rtrancl)
  moreover have "step 2 ?s5 ?s6"
    using step.collect[of ?s5 2 0 res_a] by (simp add: res_a_def numeral_2_eq_2)
  ultimately have "(step 2)\<^sup>*\<^sup>* (init 2 [cmd_a, cmd_b]) ?s6"
    by (rule rtranclp.rtrancl_into_rtrancl)
  moreover have "step 2 ?s6 batch_done"
    using step.exit[of ?s6 2] by (simp add: batch_done_def exit_status_def)
  ultimately have "(step 2)\<^sup>*\<^sup>* (init 2 [cmd_a, cmd_b]) batch_done"
    by (rule rtranclp.rtrancl_into_rtrancl)
  then show ?thesis unfolding reachable_def len .
qed

lemma step_produced:
  assumes "step t s s'"
  shows "produced s \<subseteq># produced s'"
  using assms
proof (cases rule: step.cases)
  case (publish cmd rest k)
  with concat_map_update[of k "workers s" sending "Running cmd"]
  show ?thesis by (simp add: produced_def)
next
  case close
  then show ?thesis by (simp add: produced_def)
next
  case (stop k)
  with concat_map_update[of k "workers s" sending "Stopped"]
  show ?thesis by (simp add: produced_def)
next
  case (run k cmd env)
  with concat_map_update[of k "workers s" sending "Sending (runCommand cmd env)"]
  show ?thesis by (simp add: produced_def)
next
  case (collect k result)
  with concat_map_update[of k "workers s" sending "Idle"]
  have "add_mset result (mset (concat (map sending ((workers s)[k := Idle]))))
          = mset (concat (map sending (workers s)))" by simp
  with collect show ?thesis by (simp add: produced_def flip: \<open>add_mset _ _ = _\<close>)
next
  case exit
  then show ?thesis by (simp add: produced_def)
qed

lemma steps_produced:
  assumes "(step t)\<^sup>*\<^sup>* s s'"
  shows "produced s \<subseteq># produced s'"
  using assms
proof (induction rule: rtranclp_induct)
  case base
  show ?case by simp
next
  case (step y z)
  from step.IH step_produced[OF step.hyps(2)] show ?case by (rule subset_mset.order_trans)
qed

lemma sending_held: "held w = [] \<Longrightarrow> sending w = []"
  by (cases w) simp_all

lemma no_inflight_sending: "inflight ws = [] \<Longrightarrow> concat (map sending ws) = []"
  by (auto simp: inflight_def sending_held)

lemma no_inflight_Running: "inflight ws = [] \<Longrightarrow> filter is_Running ws = []"
proof -
  assume "inflight ws = []"
  then have "\<forall>w\<in>set ws. held w = []" by (simp add: inflight_def)
  moreover have "\<And>w. held w = [] \<Longrightarrow> \<not> is_Running w" by (case_tac w) simp_all
  ultimately show ?thesis by (auto simp: filter_empty_conv)
qed

lemma steps_reachable:
  "reachable n cmds s \<Longrightarrow> (step (length cmds))\<^sup>*\<^sup>* s s' \<Longrightarrow> reachable n cmds s'"
  unfolding reachable_def by (rule rtranclp_trans)

lemma nospawn_failed: "\<not> Success (runCommand c env_nospawn)"
  by (simp add: runCommand_def env_nospawn_def)

lemma served_step:
  assumes n: "1 \<le> n" and k: "k < length cmds"
  shows "(step (length cmds))\<^sup>*\<^sup>* (served n cmds k) (served n cmds (Suc k))"
proof -
  let ?c = "cmds ! k"
  let ?r = "runCommand ?c env_nospawn"
  let ?s0 = "served n cmds k"
  let ?s1 = "?s0\<lparr>queue := drop (Suc k) cmds, workers := (workers ?s0)[0 := Running ?c]\<rparr>"
  let ?s2 = "?s1\<lparr>workers := (workers ?s1)[0 := Sending ?r]\<rparr>"
  let ?s3 = "?s2\<lparr>workers := (workers ?s2)[0 := Idle], loop_i := loop_i ?s2 + 1,
              received := received ?s2 @ [?r],
              failedCms := (if \<not> Success ?r then failedCms ?s2 @ [?r] else failedCms ?s2)\<rparr>"
  from n obtain m where m: "nat n = Suc m" by (cases "nat n") auto
  from k have q: "queue ?s0 = ?c # drop (Suc k) cmds"
    by (simp add: served_def Cons_nth_drop_Suc)
  have "step (length cmds) ?s0 ?s1"
    by (rule step.publish[OF _ q]) (simp_all add: served_def m)
  moreover have "step (length cmds) ?s1 ?s2"
    by (rule step.run[where cmd = ?c]) (simp_all add: served_def m)
  moreover have "step (length cmds) ?s2 ?s3"
    by (rule step.collect[where result = ?r]) (use k in \<open>simp_all add: served_def m\<close>)
  moreover have "?s3 = served n cmds (Suc k)"
    using k by (simp add: served_def m nospawn_failed take_Suc_conv_app_nth)
  ultimately show ?thesis by (metis rtranclp.rtrancl_into_rtrancl rtranclp.rtrancl_refl)
qed

lemma served_reachable:
  assumes "1 \<le> n" and "k \<le> length cmds"
  shows "reachable n cmds (served n cmds k)"
  using assms(2)
proof (induction k)
  case 0
  show ?case by (simp add: reachable_def served_def init_def)
next
  case (Suc k)
  then have "reachable n cmds (served n cmds k)" and "k < length cmds" by simp_all
  with served_step[OF assms(1), of k cmds] show ?case
    unfolding reachable_def by (meson rtranclp_trans)
qed

lemma all_failed_reachable:
  assumes "1 \<le> n"
  shows "reachable n cmds
           ((served n cmds (length cmds))
              \<lparr>printed := report (failedCms (served n cmds (length cmds))),
               exited := Some (exit_status (failedCms (served n cmds (length cmds))))\<rparr>)"
proof -
  let ?s = "served n cmds (length cmds)"
  have "step (length cmds) ?s (?s\<lparr>printed := report (failedCms ?s), exited := Some (exit_status (failedCms ?s))\<rparr>)"
    by (rule step.exit) (simp_all add: served_def)
  with served_reachable[OF assms order_refl, of cmds] show ?thesis
    unfolding reachable_def by (rule rtranclp.rtrancl_into_rtrancl)
qed

lemma length_many_cmds: "length many_cmds = 256"
  by (simp add: many_cmds_def main_commands_def)

text \<open>
  Claim C1, as amended. In every state the process can reach: once \<^verbatim>\<open>os.Exit\<close> has been
  called, one result has been collected for every task, and the argument of \<^verbatim>\<open>os.Exit\<close> is
  the number of collected results that are marked failed. The exit status the host reports
  is that number modulo 256: the number itself when fewer than 256 tasks failed, and 0 when
  none did. And the exit is reached: from every reachable state some schedule leads to it,
  provided at least one worker was started or there is no task (with no worker and a task,
  nothing ever receives from \<^verbatim>\<open>input\<close>).
\<close>

theorem exit_status_is_failure_count_in_range:
  assumes "reachable n cmds s"
  shows "(\<forall>code. exited s = Some code \<longrightarrow>
            length (received s) = length cmds
          \<and> code = int (length (filter (\<lambda>r. \<not> Success r) (received s)))
          \<and> process_exit_status s
              = Some (int (length (filter (\<lambda>r. \<not> Success r) (received s))) mod 256)
          \<and> (length (filter (\<lambda>r. \<not> Success r) (received s)) < 256 \<longrightarrow>
               process_exit_status s
                 = Some (int (length (filter (\<lambda>r. \<not> Success r) (received s)))))
          \<and> ((\<forall>r\<in>set (received s). Success r) \<longrightarrow> process_exit_status s = Some 0))
       \<and> (1 \<le> n \<or> cmds = [] \<longrightarrow>
            (\<exists>s'. (step (length cmds))\<^sup>*\<^sup>* s s' \<and> exited s' \<noteq> None))"
proof -
  note I = reachable_inv[OF assms]
  let ?k = "length (filter (\<lambda>r. \<not> Success r) (received s))"
  have "length (received s) = length cmds \<and> code = int ?k
      \<and> process_exit_status s = Some (int ?k mod 256)
      \<and> (?k < 256 \<longrightarrow> process_exit_status s = Some (int ?k))
      \<and> ((\<forall>r\<in>set (received s). Success r) \<longrightarrow> process_exit_status s = Some 0)"
    if ex: "exited s = Some code" for code
  proof -
    from inv_exited(1,2)[OF I ex]
    have c: "code = int ?k" and l: "length (received s) = length cmds" .
    from ex c have p: "process_exit_status s = Some (int ?k mod 256)"
      by (simp add: process_exit_status_def host_exit_status_def)
    have "process_exit_status s = Some (int ?k)" if "?k < 256"
      using p that by simp
    moreover have "process_exit_status s = Some 0" if "\<forall>r\<in>set (received s). Success r"
    proof -
      from that have "filter (\<lambda>r. \<not> Success r) (received s) = []" by (simp add: filter_empty_conv)
      with p show ?thesis by simp
    qed
    ultimately show ?thesis using c l p by blast
  qed
  moreover have "\<exists>s'. (step (length cmds))\<^sup>*\<^sup>* s s' \<and> exited s' \<noteq> None" if "1 \<le> n \<or> cmds = []"
    using exit_reachable[OF I that] .
  ultimately show ?thesis by blast
qed

theorem exit_status_is_failure_count_in_range_witness:
  "reachable 2 [cmd_a, cmd_b] batch_done \<and> exited batch_done = Some 1
 \<and> length (received batch_done) = length [cmd_a, cmd_b]
 \<and> length (filter (\<lambda>r. \<not> Success r) (received batch_done)) = 1
 \<and> process_exit_status batch_done = Some 1
 \<and> (\<exists>s'. (step (length [cmd_a, cmd_b]))\<^sup>*\<^sup>* batch_done s' \<and> exited s' \<noteq> None)"
  using exit_status_is_failure_count_in_range[OF batch_done_reachable] batch_done_reachable
  by (simp add: batch_done_def res_a_def res_b_def)

text \<open>
  The claim as stated, the exit status equals the number of failed tasks, fails beyond the
  host's range: a batch of 256 repositories in which no executable can be started calls
  \<^verbatim>\<open>os.Exit(256)\<close>, and the process exits with status 0.
\<close>

theorem exit_status_truncated_counterexample:
  "reachable 1 many_cmds many_failed
 \<and> exited many_failed = Some 256
 \<and> length (filter (\<lambda>r. \<not> Success r) (received many_failed)) = 256
 \<and> process_exit_status many_failed = Some 0"
proof -
  have f: "failedCms (served 1 many_cmds 256) = map (\<lambda>c. runCommand c env_nospawn) many_cmds"
    using length_many_cmds by (simp add: served_def)
  then have e: "exit_status (failedCms (served 1 many_cmds 256)) = 256"
    using length_many_cmds by (simp add: exit_status_def)
  from all_failed_reachable[of 1 many_cmds] have "reachable 1 many_cmds many_failed"
    by (simp add: many_failed_def length_many_cmds e)
  moreover have "received many_failed = map (\<lambda>c. runCommand c env_nospawn) many_cmds"
    using length_many_cmds by (simp add: many_failed_def served_def)
  then have "length (filter (\<lambda>r. \<not> Success r) (received many_failed)) = 256"
    using length_many_cmds by (simp add: nospawn_failed)
  moreover have "exited many_failed = Some 256" by (simp add: many_failed_def)
  then have "process_exit_status many_failed = Some 0"
    by (simp add: process_exit_status_def host_exit_status_def)
  ultimately show ?thesis using \<open>exited many_failed = Some 256\<close> by blast
qed

text \<open>
  Claim C2. In every reachable state the commands of the results collected so far are among
  the dispatched commands, each at most as often as it was dispatched; at the exit the
  collector has read exactly as many results as there are commands, and the commands of
  the results are the dispatched commands, each once. The exit is reached: every step
  lowers the measure of the work left, so no schedule goes on for ever, and, provided at
  least one worker was started or there is no task, a state before the exit always has a
  next step and some schedule leads to the exit.
\<close>

theorem one_result_per_command:
  assumes "reachable n cmds s"
  shows "mset (map CommandResult.Command (received s)) \<subseteq># mset cmds
       \<and> (exited s \<noteq> None \<longrightarrow>
            length (received s) = length cmds
          \<and> mset (map CommandResult.Command (received s)) = mset cmds)
       \<and> (\<forall>s'. step (length cmds) s s' \<longrightarrow> remaining s' < remaining s)
       \<and> (1 \<le> n \<or> cmds = [] \<longrightarrow>
            (exited s = None \<longrightarrow> (\<exists>s'. step (length cmds) s s'))
          \<and> (\<exists>s'. (step (length cmds))\<^sup>*\<^sup>* s s' \<and> exited s' \<noteq> None))"
proof -
  note I = reachable_inv[OF assms]
  from I have "accounted s = mset cmds" unfolding inv_def by blast
  then have "mset (map CommandResult.Command (received s)) \<subseteq># mset cmds"
    by (metis accounted_def mset_subset_eq_add_left subset_mset.add_increasing2 subset_mset.zero_le add.assoc)
  moreover have "length (received s) = length cmds
          \<and> mset (map CommandResult.Command (received s)) = mset cmds" if "exited s \<noteq> None"
  proof -
    from that obtain code where "exited s = Some code" by blast
    from inv_exited(2,3)[OF I this] show ?thesis by blast
  qed
  moreover have "\<forall>s'. step (length cmds) s s' \<longrightarrow> remaining s' < remaining s"
    using step_remaining by blast
  moreover have "\<exists>s'. step (length cmds) s s'" if "1 \<le> n \<or> cmds = []" "exited s = None"
    using progress[OF I that(2,1)] .
  moreover have "\<exists>s'. (step (length cmds))\<^sup>*\<^sup>* s s' \<and> exited s' \<noteq> None" if "1 \<le> n \<or> cmds = []"
    using exit_reachable[OF I that] .
  ultimately show ?thesis by blast
qed

theorem one_result_per_command_witness:
  "reachable 2 [cmd_a, cmd_b] batch_done \<and> exited batch_done \<noteq> None
 \<and> map CommandResult.Command (received batch_done) = [cmd_b, cmd_a]
 \<and> mset (map CommandResult.Command (received batch_done)) = mset [cmd_a, cmd_b]
 \<and> reachable 2 [cmd_a, cmd_b] both_running \<and> exited both_running = None
 \<and> (\<exists>s'. step (length [cmd_a, cmd_b]) both_running s')
 \<and> (\<exists>s'. (step (length [cmd_a, cmd_b]))\<^sup>*\<^sup>* both_running s' \<and> exited s' \<noteq> None)"
  using one_result_per_command[OF batch_done_reachable]
        one_result_per_command[OF both_running_reachable]
        batch_done_reachable both_running_reachable
  by (simp add: batch_done_def both_running_def res_a_def res_b_def)

text \<open>
  Claim C8. In every reachable state, for every list of commands, the number of workers
  that are inside \<^verbatim>\<open>runCommand\<close> (the only place where an external command executes) is at
  most the configured number of workers (none for a number below 1).
\<close>

theorem concurrency_bound:
  assumes "reachable n cmds s"
  shows "executing s \<le> nat n"
proof -
  from reachable_inv[OF assms] have "length (workers s) = nat n" unfolding inv_def by blast
  moreover have "length (filter is_Running (workers s)) \<le> length (workers s)"
    by (rule length_filter_le)
  ultimately show ?thesis by (simp add: executing_def)
qed

theorem concurrency_bound_witness:
  "reachable 2 [cmd_a, cmd_b] both_running \<and> executing both_running = 2 \<and> executing both_running \<le> nat 2"
  using concurrency_bound[OF both_running_reachable] both_running_reachable
  by (simp add: both_running_def executing_def)

text \<open>
  Claim C5. When \<^verbatim>\<open>process.Start\<close> fails for the command of a running worker,
  \<^verbatim>\<open>runCommand\<close> returns a result marked failed whose error is the error of \<^verbatim>\<open>Start\<close>, with
  the command attached. That is a step of the batch like any other: afterwards the batch
  can still run to its exit, no schedule gets stuck before the exit, and at the exit every
  dispatched command has its result, the failed one among them.
\<close>

theorem spawn_failure_is_per_task:
  assumes se: "start_err env = Some e" and r: "reachable n cmds s"
    and k: "k < length (workers s)" and w: "workers s ! k = Running cmd"
  shows "runCommand cmd env = \<lparr>Success = False, Error = Some (OSError e), Command = cmd\<rparr>
       \<and> step (length cmds) s (s\<lparr>workers := (workers s)[k := Sending (runCommand cmd env)]\<rparr>)
       \<and> (\<exists>s'. (step (length cmds))\<^sup>*\<^sup>* (s\<lparr>workers := (workers s)[k := Sending (runCommand cmd env)]\<rparr>) s'
              \<and> exited s' \<noteq> None)
       \<and> (\<forall>s'. (step (length cmds))\<^sup>*\<^sup>* (s\<lparr>workers := (workers s)[k := Sending (runCommand cmd env)]\<rparr>) s'
              \<longrightarrow> (exited s' = None \<longrightarrow> (\<exists>s''. step (length cmds) s' s''))
                \<and> (exited s' \<noteq> None \<longrightarrow>
                     mset (map CommandResult.Command (received s')) = mset cmds
                   \<and> runCommand cmd env \<in> set (received s')))"
proof -
  let ?s1 = "s\<lparr>workers := (workers s)[k := Sending (runCommand cmd env)]\<rparr>"
  note I = reachable_inv[OF r]
  from se have res: "runCommand cmd env = \<lparr>Success = False, Error = Some (OSError e), Command = cmd\<rparr>"
    by (simp add: runCommand_def)
  from k w have "inflight (workers s) \<noteq> []" by (intro held_inflight[OF k]) simp
  with I have ex: "exited s = None"
    using inv_exited(4)[OF I] by (cases "exited s") auto
  from step.run[OF ex k w] have st: "step (length cmds) s ?s1" .
  from inv_preserved[OF I st] have I1: "inv n cmds ?s1" .
  from k I have n: "1 \<le> n \<or> cmds = []" by (auto simp: inv_def)
  from exit_reachable[OF I1 n]
  have live: "\<exists>s'. (step (length cmds))\<^sup>*\<^sup>* ?s1 s' \<and> exited s' \<noteq> None" .
  from k have "runCommand cmd env \<in># mset (concat (map sending ((workers s)[k := Sending (runCommand cmd env)])))"
    by (auto simp: set_update_memI intro!: bexI[where x="Sending (runCommand cmd env)"])
  then have p1: "runCommand cmd env \<in># produced ?s1" by (simp add: produced_def)
  have "(exited s' = None \<longrightarrow> (\<exists>s''. step (length cmds) s' s''))
      \<and> (exited s' \<noteq> None \<longrightarrow>
            mset (map CommandResult.Command (received s')) = mset cmds
          \<and> runCommand cmd env \<in> set (received s'))"
    if run: "(step (length cmds))\<^sup>*\<^sup>* ?s1 s'" for s'
  proof -
    from steps_inv[OF run I1] have I': "inv n cmds s'" .
    have "\<exists>s''. step (length cmds) s' s''" if "exited s' = None"
      using progress[OF I' that n] .
    moreover have "mset (map CommandResult.Command (received s')) = mset cmds
          \<and> runCommand cmd env \<in> set (received s')" if "exited s' \<noteq> None"
    proof -
      from that obtain code where c: "exited s' = Some code" by blast
      from inv_exited(4)[OF I' c] have "concat (map sending (workers s')) = []"
        by (rule no_inflight_sending)
      then have "produced s' = mset (received s')" by (simp add: produced_def)
      with steps_produced[OF run] p1 have "runCommand cmd env \<in> set (received s')"
        by (metis mset_subset_eqD set_mset_mset)
      with inv_exited(3)[OF I' c] show ?thesis by blast
    qed
    ultimately show ?thesis by blast
  qed
  with res st live show ?thesis by blast
qed

theorem spawn_failure_is_per_task_witness:
  "start_err env_nospawn = Some ''exec: git: executable file not found''
 \<and> reachable 2 [cmd_a, cmd_b] both_running
 \<and> workers both_running ! 1 = Running cmd_b
 \<and> runCommand cmd_b env_nospawn = res_b
 \<and> (\<exists>s'. (step (length [cmd_a, cmd_b]))\<^sup>*\<^sup>*
             (both_running\<lparr>workers := (workers both_running)[1 := Sending (runCommand cmd_b env_nospawn)]\<rparr>) s'
          \<and> exited s' \<noteq> None)"
  using spawn_failure_is_per_task[of env_nospawn "''exec: git: executable file not found''" 2
          "[cmd_a, cmd_b]" both_running 1 cmd_b] both_running_reachable
  by (simp add: both_running_def env_nospawn_def res_b_eq[unfolded env_nospawn_def])

text \<open>
  Claim C10. When \<^verbatim>\<open>ioutil.ReadDir\<close> fails, the task set is empty. In every state the process
  can then reach, for every number of workers, no worker executes or holds a command, no
  result has been collected, no failure has been recorded or printed, an exit has status 0,
  and the exit with status 0 can be reached.
\<close>

theorem readdir_failure_exits_zero:
  assumes "reachable n (main_commands (main_repos uni stat excludeDirectories (Inl err)) args) s"
  shows "main_repos uni stat excludeDirectories (Inl err) = []
       \<and> executing s = 0 \<and> inflight (workers s) = [] \<and> received s = [] \<and> failedCms s = []
       \<and> printed s = []
       \<and> (\<forall>code. exited s = Some code \<longrightarrow> code = 0)
       \<and> (\<exists>s'. (step 0)\<^sup>*\<^sup>* s s' \<and> exited s' = Some 0)"
proof -
  have nil: "main_repos uni stat excludeDirectories (Inl err) = []"
    by (simp add: main_repos_def)
  with assms have r: "reachable n [] s" by (simp add: main_commands_def)
  note I = reachable_inv[OF r]
  from inv_loop_i_le[OF I] have fl: "inflight (workers s) = []" and li: "loop_i s = 0" by simp_all
  with I have rc: "received s = []" and fc: "failedCms s = []" by (simp_all add: inv_def)
  from fl have ex: "executing s = 0" by (simp add: executing_def no_inflight_Running)
  from I fc have pr: "printed s = []" by (cases "exited s") (auto simp: inv_def report_def)
  have z: "code = 0" if "exited s = Some code" for code
    using inv_exited(1)[OF I that] rc by simp
  from exit_reachable[OF I] obtain s' where s': "(step (length ([]::Command list)))\<^sup>*\<^sup>* s s'"
    and e': "exited s' \<noteq> None" by blast
  from e' obtain code where c: "exited s' = Some code" by blast
  from steps_reachable[OF r s'] have "reachable n [] s'" .
  from inv_exited(1,2)[OF reachable_inv[OF this] c] have "code = 0" by simp
  with c s' have "\<exists>s'. (step 0)\<^sup>*\<^sup>* s s' \<and> exited s' = Some 0" by auto
  with nil ex fl rc fc pr z show ?thesis by blast
qed

theorem readdir_failure_exits_zero_witness:
  "reachable 4 (main_commands (main_repos (\<lambda>s t. False) (\<lambda>p. StatOk) [] (Inl ''open ./: permission denied'')) [''status''])
     (init 4 [])
 \<and> (\<exists>s'. (step 0)\<^sup>*\<^sup>* (init 4 []) s' \<and> exited s' = Some 0)"
proof -
  have r: "reachable 4 (main_commands (main_repos (\<lambda>s t. False) (\<lambda>p. StatOk) [] (Inl ''open ./: permission denied'')) [''status''])
     (init 4 [])"
    by (simp add: reachable_def main_repos_def main_commands_def)
  from readdir_failure_exits_zero[OF r] r show ?thesis by blast
qed

end
